theory Spec2Isabelle
  imports Main "HOL-Library.Sublist" "HOL-Library.Char_ord" "HOL-Library.List_Lexorder"
begin

section \<open>Data model\<close>

text \<open>
  The script \<^verbatim>\<open>updatetokenxml.py\<close> compares the tokens of a Scryfall set with a Cockatrice
  token XML file.  Python strings are modelled as \<^typ>\<open>string\<close>; the texts the script
  handles are ASCII apart from the separator literal of \<^verbatim>\<open>createXmlEntry\<close>, which is
  carried as the UTF-8 bytes it has in the source file.  Splitting, prefix, substring and
  equality tests agree on UTF-8 bytes and on code points.

  Exceptions are values: a function that can raise returns \<open>py_error + 'a\<close>.
\<close>

datatype py_error = KeyError string | AttributeError

text \<open>
  An lxml element: tag, attributes, text (\<open>None\<close> when the element has no text) and child
  elements in document order.  Comments, processing instructions and tails are not
  modelled.
\<close>

datatype element =
  Element (el_tag: string) (el_attrib: "(string \<times> string) list")
          (el_text: "string option") (el_children: "element list")

text \<open>
  ElementPath as far as the script uses it: a path is a list of child steps.  A trailing
  slash as in \<^verbatim>\<open>'./cards/'\<close> is an implicit \<^verbatim>\<open>*\<close> step.
\<close>

datatype step = Child string | AnyChild

fun step_matches :: "step \<Rightarrow> element \<Rightarrow> bool" where
  "step_matches (Child t) e = (el_tag e = t)"
| "step_matches AnyChild e = True"

fun findall :: "step list \<Rightarrow> element \<Rightarrow> element list" where
  "findall [] e = [e]"
| "findall (s # ss) e = concat (map (findall ss) (filter (step_matches s) (el_children e)))"

definition find_el :: "step list \<Rightarrow> element \<Rightarrow> element option" where
  "find_el p e = (case findall p e of [] \<Rightarrow> None | x # _ \<Rightarrow> Some x)"

text \<open>\<^verbatim>\<open>findtext\<close> returns \<^verbatim>\<open>None\<close> when nothing is found, else \<^verbatim>\<open>el.text or ''\<close>.\<close>

definition findtext :: "step list \<Rightarrow> element \<Rightarrow> string option" where
  "findtext p e =
     (case find_el p e of
        None \<Rightarrow> None
      | Some x \<Rightarrow> Some (case el_text x of None \<Rightarrow> [] | Some t \<Rightarrow> t))"

text \<open>
  \<^verbatim>\<open>elem.insert(i, new)\<close>: the new child goes before the child at index \<open>i\<close>, or to the
  end when there are fewer children.
\<close>

definition el_insert :: "nat \<Rightarrow> element \<Rightarrow> element \<Rightarrow> element" where
  "el_insert i new e =
     Element (el_tag e) (el_attrib e) (el_text e)
       (take i (el_children e) @ new # drop i (el_children e))"

text \<open>A Scryfall entry (a JSON object): an absent key is \<open>None\<close>.\<close>

record sf_entry =
  sf_name :: "string option"
  sf_oracle_text :: "string option"
  sf_type_line :: "string option"
  sf_colors :: "string list option"
  sf_power :: "string option"
  sf_toughness :: "string option"
  sf_image_uris :: "(string \<times> string) list option"

record sf_token = sf_entry +
  sf_layout :: "string option"
  sf_card_faces :: "sf_entry list option"

record token_info =
  token_name :: string
  token_text :: string
  token_type :: string
  token_colors :: "string list"
  token_pt :: string
  token_image :: string

section \<open>String helpers\<close>

text \<open>\<^verbatim>\<open>str.upper()\<close> on ASCII letters; other characters are left as they are.\<close>

definition upper_char :: "char \<Rightarrow> char" where
  "upper_char c =
     (if CHR ''a'' \<le> c \<and> c \<le> CHR ''z'' then char_of (of_char c - (32::nat)) else c)"

definition upper :: "string \<Rightarrow> string" where
  "upper s = map upper_char s"

text \<open>
  \<^verbatim>\<open>s.split(sep)\<close> for a non-empty separator: the pieces between the non-overlapping
  occurrences of \<open>sep\<close>, found from the left.  \<open>acc\<close> holds the current piece reversed.
\<close>

function split_aux :: "string \<Rightarrow> string \<Rightarrow> string \<Rightarrow> string list" where
  "split_aux sep acc [] = [rev acc]"
| "split_aux sep acc (c # cs) =
     (if sep \<noteq> [] \<and> prefix sep (c # cs)
      then rev acc # split_aux sep [] (drop (length sep) (c # cs))
      else split_aux sep (c # acc) cs)"
  by pat_completeness auto
termination
  by (relation "measure (\<lambda>(sep, acc, s). length s)") auto

definition split :: "string \<Rightarrow> string \<Rightarrow> string list" where
  "split s sep = split_aux sep [] s"

section \<open>fetchTokenInfo\<close>

definition fetchTokenInfo :: "'a sf_entry_scheme \<Rightarrow> py_error + token_info" where
  "fetchTokenInfo sf_entry =
     (case sf_name sf_entry of None \<Rightarrow> Inl (KeyError ''name'') | Some n \<Rightarrow>
      case sf_oracle_text sf_entry of None \<Rightarrow> Inl (KeyError ''oracle_text'') | Some txt \<Rightarrow>
      case sf_type_line sf_entry of None \<Rightarrow> Inl (KeyError ''type_line'') | Some ty \<Rightarrow>
      case sf_colors sf_entry of None \<Rightarrow> Inl (KeyError ''colors'') | Some cols \<Rightarrow>
      let pt = (case (sf_power sf_entry, sf_toughness sf_entry) of
                  (Some p, Some t) \<Rightarrow> p @ ''/'' @ t
                | _ \<Rightarrow> '''')
      in case sf_image_uris sf_entry of None \<Rightarrow> Inl (KeyError ''image_uris'') | Some uris \<Rightarrow>
         case map_of uris ''large'' of None \<Rightarrow> Inl (KeyError ''large'') | Some img \<Rightarrow>
           Inr \<lparr>token_name = n, token_text = txt, token_type = ty,
                token_colors = sort cols, token_pt = pt, token_image = img\<rparr>)"

section \<open>xmlMatch\<close>

text \<open>
  The comparison of one catalog entry with a token (source lines 122 to 145).  The name
  is read with \<^verbatim>\<open>findtext\<close> and used unguarded, so an entry without a \<^verbatim>\<open>name\<close>
  child raises AttributeError.  The conjunction of line 145 is evaluated left to right
  and stops at the first false conjunct; \<^verbatim>\<open>xml_card.find('./prop/type').text\<close> is only
  reached, and only then raises, when the name and text tests have passed.
\<close>

definition xml_text_of :: "element \<Rightarrow> string" where
  "xml_text_of xml_card =
     (case find_el [Child ''text''] xml_card of
        None \<Rightarrow> []
      | Some _ \<Rightarrow> (case findtext [Child ''text''] xml_card of None \<Rightarrow> [] | Some t \<Rightarrow> t))"

definition xml_colors_of :: "element \<Rightarrow> string list" where
  "xml_colors_of xml_card =
     (case findtext [Child ''prop'', Child ''colors''] xml_card of
        None \<Rightarrow> []
      | Some t \<Rightarrow> sort (map (\<lambda>c. [c]) t))"

definition xml_pt_of :: "element \<Rightarrow> string" where
  "xml_pt_of xml_card =
     (case findtext [Child ''prop'', Child ''pt''] xml_card of None \<Rightarrow> [] | Some t \<Rightarrow> t)"

definition card_matches :: "element \<Rightarrow> token_info \<Rightarrow> py_error + bool" where
  "card_matches xml_card token_info =
     (case findtext [Child ''name''] xml_card of
        None \<Rightarrow> Inl AttributeError
      | Some xml_name \<Rightarrow>
          if \<not> prefix (token_name token_info) xml_name then Inr False
          else if xml_text_of xml_card \<noteq> token_text token_info then Inr False
          else (case find_el [Child ''prop'', Child ''type''] xml_card of
                  None \<Rightarrow> Inl AttributeError
                | Some ty \<Rightarrow>
                    Inr (el_text ty = Some (token_type token_info)
                         \<and> xml_colors_of xml_card = token_colors token_info
                         \<and> xml_pt_of xml_card = token_pt token_info)))"

text \<open>The set line of lines 147 and 148, and its insertion (lines 151 to 155).\<close>

definition new_set_line :: "token_info \<Rightarrow> string \<Rightarrow> element" where
  "new_set_line token_info set_code =
     Element ''set'' [(''picURL'', token_image token_info)] (Some (upper set_code)) []"

definition set_line_index :: "element \<Rightarrow> nat" where
  "set_line_index xml_card = (if find_el [Child ''text''] xml_card \<noteq> None then 3 else 2)"

definition insert_set_line :: "token_info \<Rightarrow> string \<Rightarrow> element \<Rightarrow> element" where
  "insert_set_line token_info set_code xml_card =
     el_insert (set_line_index xml_card) (new_set_line token_info set_code) xml_card"

text \<open>
  The loop of \<^verbatim>\<open>xmlMatch\<close> over the entries of one \<^verbatim>\<open>cards\<close> container, threading
  \<^verbatim>\<open>match_found\<close> and the global \<^verbatim>\<open>reprint_count\<close>; it returns the entries as the loop
  leaves them.  An exception ends the loop.
\<close>

fun xmlMatch_entries ::
  "token_info \<Rightarrow> string \<Rightarrow> element list \<Rightarrow> bool \<Rightarrow> nat \<Rightarrow> py_error + (element list \<times> bool \<times> nat)"
where
  "xmlMatch_entries ti sc [] mf rc = Inr ([], mf, rc)"
| "xmlMatch_entries ti sc (c # cs) mf rc =
     (case card_matches c ti of
        Inl e \<Rightarrow> Inl e
      | Inr b \<Rightarrow>
          if b then
            (case xmlMatch_entries ti sc cs True (Suc rc) of
               Inl e \<Rightarrow> Inl e
             | Inr (cs', mf', rc') \<Rightarrow> Inr (insert_set_line ti sc c # cs', mf', rc'))
          else
            (case xmlMatch_entries ti sc cs mf rc of
               Inl e \<Rightarrow> Inl e
             | Inr (cs', mf', rc') \<Rightarrow> Inr (c # cs', mf', rc')))"

text \<open>
  \<^verbatim>\<open>findall('./cards/')\<close> visits, in document order, every child of every \<^verbatim>\<open>cards\<close> child
  of the root: the loop over the children of the root.
\<close>

fun xmlMatch_containers ::
  "token_info \<Rightarrow> string \<Rightarrow> element list \<Rightarrow> bool \<Rightarrow> nat \<Rightarrow> py_error + (element list \<times> bool \<times> nat)"
where
  "xmlMatch_containers ti sc [] mf rc = Inr ([], mf, rc)"
| "xmlMatch_containers ti sc (k # ks) mf rc =
     (if el_tag k = ''cards'' then
        (case xmlMatch_entries ti sc (el_children k) mf rc of
           Inl e \<Rightarrow> Inl e
         | Inr (cs', mf1, rc1) \<Rightarrow>
             (case xmlMatch_containers ti sc ks mf1 rc1 of
                Inl e \<Rightarrow> Inl e
              | Inr (ks', mf2, rc2) \<Rightarrow>
                  Inr (Element (el_tag k) (el_attrib k) (el_text k) cs' # ks', mf2, rc2)))
      else
        (case xmlMatch_containers ti sc ks mf rc of
           Inl e \<Rightarrow> Inl e
         | Inr (ks', mf2, rc2) \<Rightarrow> Inr (k # ks', mf2, rc2)))"

text \<open>
  \<^verbatim>\<open>xmlMatch\<close> takes the root and the current \<^verbatim>\<open>reprint_count\<close>, and returns the
  mutated root, \<^verbatim>\<open>match_found\<close> and the new \<^verbatim>\<open>reprint_count\<close>.
\<close>

definition xmlMatch ::
  "element \<Rightarrow> token_info \<Rightarrow> string \<Rightarrow> nat \<Rightarrow> py_error + (element \<times> bool \<times> nat)"
where
  "xmlMatch xml_root token_info set_code reprint_count =
     (case xmlMatch_containers token_info set_code (el_children xml_root) False reprint_count of
        Inl e \<Rightarrow> Inl e
      | Inr (ks', mf, rc) \<Rightarrow>
          Inr (Element (el_tag xml_root) (el_attrib xml_root) (el_text xml_root) ks', mf, rc))"

definition catalog_entries :: "element \<Rightarrow> element list" where
  "catalog_entries xml_root = findall [Child ''cards'', AnyChild] xml_root"

section \<open>createXmlEntry\<close>

definition SHORT_TAG_LIST :: "string list" where
  "SHORT_TAG_LIST = [''Emblem'', ''Dungeon'', ''Card'', ''Token'']"

text \<open>
  The separator literal of line 219 as the source file has it: a space, the bytes
  C3 A2, E2 82 AC, E2 80 9D (the three bytes of an em dash, E2 80 94, read as
  Windows-1252 and written back as UTF-8) and a space.
\<close>

definition SUBTYPE_SEP :: string where
  "SUBTYPE_SEP =
     [CHR '' '', CHR 0xC3, CHR 0xA2, CHR 0xE2, CHR 0x82, CHR 0xAC,
      CHR 0xE2, CHR 0x80, CHR 0x9D, CHR '' '']"

text \<open>Lines 194 to 214; the diagnostic printed in the last branch is not modelled.\<close>

definition maintype_of :: "string \<Rightarrow> string" where
  "maintype_of card_type_text =
     (if sublist ''Emblem'' card_type_text then ''Emblem''
      else if sublist ''Dungeon'' card_type_text then ''Dungeon''
      else if sublist ''Creature'' card_type_text then ''Creature''
      else if sublist ''Artifact'' card_type_text then ''Artifact''
      else if sublist ''Enchantment'' card_type_text then ''Enchantment''
      else ''Please edit manually'')"

text \<open>
  Lines 216 to 228: \<^verbatim>\<open>split(...)[1]\<close> raises IndexError when the split has one piece
  only, and the handler passes.
\<close>

definition entry_name :: "token_info \<Rightarrow> string" where
  "entry_name token_info =
     (case split (token_type token_info) SUBTYPE_SEP of
        _ # subtype # _ \<Rightarrow>
          if subtype = token_name token_info then token_name token_info @ '' Token''
          else token_name token_info
      | _ \<Rightarrow> token_name token_info)"

definition createXmlEntry :: "token_info \<Rightarrow> string \<Rightarrow> element" where
  "createXmlEntry token_info set_code =
     (let maintype_text = maintype_of (token_type token_info);
          prop = Element ''prop'' [] None
            ((if token_colors token_info \<noteq> []
              then [Element ''colors'' [] (Some (concat (token_colors token_info))) []] else [])
             @ [Element ''type'' [] (Some (token_type token_info)) [],
                Element ''maintype'' [] (Some maintype_text) []]
             @ (if token_type token_info \<notin> set SHORT_TAG_LIST
                then [Element ''cmc'' [] (Some ''0'') []] else [])
             @ (if token_pt token_info \<noteq> []
                then [Element ''pt'' [] (Some (token_pt token_info)) []] else []))
      in Element ''card'' [] None
           ([Element ''name'' [] (Some (entry_name token_info)) []]
            @ (if token_text token_info \<noteq> []
               then [Element ''text'' [] (Some (token_text token_info)) []] else [])
            @ [prop,
               Element ''set'' [(''picURL'', token_image token_info)] (Some (upper set_code)) []]
            @ (if sublist ''transform'' (token_text token_info)
                  \<or> sublist ''Transform'' (token_text token_info)
               then [Element ''related'' [] (Some []) []] else [])
            @ [Element ''reverse-related'' [] (Some []) [],
               Element ''token'' [] (Some ''1'') [],
               Element ''tablerow'' [] (Some (if maintype_text = ''Creature'' then ''2'' else ''1'')) []]))"

section \<open>updateTokenXML\<close>

text \<open>
  The state of the main loop: the parsed catalog, the entries appended to the
  \<^verbatim>\<open>cards\<close> element of the new tree, and the three counters.  The token list (the result
  of \<^verbatim>\<open>pullScryfallAPI\<close>) and the parsed catalog are arguments.  The function has no
  exception handler: an exception leaves it before either file is written.
\<close>

record sync_state =
  xml_root :: element
  new_cards :: "element list"
  new_token_count :: nat
  double_faced_count :: nat
  reprint_count :: nat

text \<open>Lines 302 to 310 and 316 to 324: one entry or face.\<close>

definition process_entry ::
  "string \<Rightarrow> 'a sf_entry_scheme \<Rightarrow> sync_state \<Rightarrow> py_error + sync_state"
where
  "process_entry set_code sf st =
     (case fetchTokenInfo sf of
        Inl e \<Rightarrow> Inl e
      | Inr info \<Rightarrow>
          (case xmlMatch (xml_root st) info set_code (reprint_count st) of
             Inl e \<Rightarrow> Inl e
           | Inr (root', match_found, rc') \<Rightarrow>
               if \<not> match_found then
                 Inr (st\<lparr>xml_root := root', reprint_count := rc',
                         new_cards := new_cards st @ [createXmlEntry info set_code],
                         new_token_count := Suc (new_token_count st)\<rparr>)
               else Inr (st\<lparr>xml_root := root', reprint_count := rc'\<rparr>)))"

fun process_faces :: "string \<Rightarrow> sf_entry list \<Rightarrow> sync_state \<Rightarrow> py_error + sync_state" where
  "process_faces set_code [] st = Inr st"
| "process_faces set_code (sf_face # faces) st =
     (case process_entry set_code sf_face st of
        Inl e \<Rightarrow> Inl e
      | Inr st' \<Rightarrow> process_faces set_code faces st')"

definition process_token :: "string \<Rightarrow> sf_token \<Rightarrow> sync_state \<Rightarrow> py_error + sync_state" where
  "process_token set_code sf_tok st =
     (case sf_layout sf_tok of
        None \<Rightarrow> Inl (KeyError ''layout'')
      | Some layout \<Rightarrow>
          if layout = ''double_faced_token'' then
            (case sf_card_faces sf_tok of
               None \<Rightarrow> Inl (KeyError ''card_faces'')
             | Some faces \<Rightarrow>
                 process_faces set_code faces
                   (st\<lparr>double_faced_count := Suc (double_faced_count st)\<rparr>))
          else process_entry set_code sf_tok st)"

fun process_tokens :: "string \<Rightarrow> sf_token list \<Rightarrow> sync_state \<Rightarrow> py_error + sync_state" where
  "process_tokens set_code [] st = Inr st"
| "process_tokens set_code (sf_tok # token_set) st =
     (case process_token set_code sf_tok st of
        Inl e \<Rightarrow> Inl e
      | Inr st' \<Rightarrow> process_tokens set_code token_set st')"

definition updateTokenXML :: "string \<Rightarrow> element \<Rightarrow> sf_token list \<Rightarrow> py_error + sync_state" where
  "updateTokenXML set_code root0 token_set =
     process_tokens set_code token_set
       \<lparr>xml_root = root0, new_cards = [], new_token_count = 0,
        double_faced_count = 0, reprint_count = 0\<rparr>"

section \<open>Notions for the proofs\<close>

text \<open>
  What \<^verbatim>\<open>xmlMatch\<close> returns and counts depends only on the results of the comparison,
  entry by entry, in document order.
\<close>

fun match_outcome :: "(py_error + bool) list \<Rightarrow> bool \<Rightarrow> nat \<Rightarrow> py_error + (bool \<times> nat)" where
  "match_outcome [] mf rc = Inr (mf, rc)"
| "match_outcome (Inl e # rs) mf rc = Inl e"
| "match_outcome (Inr b # rs) mf rc = match_outcome rs (mf \<or> b) (if b then Suc rc else rc)"

text \<open>The entry and the container as one call of \<^verbatim>\<open>xmlMatch\<close> leaves them.\<close>

definition updated_entry :: "token_info \<Rightarrow> string \<Rightarrow> element \<Rightarrow> element" where
  "updated_entry ti sc c = (if card_matches c ti = Inr True then insert_set_line ti sc c else c)"

definition updated_container :: "token_info \<Rightarrow> string \<Rightarrow> element \<Rightarrow> element" where
  "updated_container ti sc k =
     (if el_tag k = ''cards''
      then Element (el_tag k) (el_attrib k) (el_text k) (map (updated_entry ti sc) (el_children k))
      else k)"

text \<open>What the comparison reads from an entry.\<close>

definition entry_sig ::
  "element \<Rightarrow> string option \<times> string \<times> string option option \<times> string list \<times> string" where
  "entry_sig c =
     (findtext [Child ''name''] c, xml_text_of c,
      map_option el_text (find_el [Child ''prop'', Child ''type''] c),
      xml_colors_of c, xml_pt_of c)"

text \<open>
  Two catalogs are alike for the matcher when their entries read alike, in order; two
  states of the main loop when their catalogs are and the rest is equal.
\<close>

definition cat_equiv :: "element \<Rightarrow> element \<Rightarrow> bool" where
  "cat_equiv r1 r2 \<longleftrightarrow> map entry_sig (catalog_entries r1) = map entry_sig (catalog_entries r2)"

definition state_equiv :: "sync_state \<Rightarrow> sync_state \<Rightarrow> bool" where
  "state_equiv s1 s2 \<longleftrightarrow>
     cat_equiv (xml_root s1) (xml_root s2) \<and> new_cards s1 = new_cards s2
     \<and> new_token_count s1 = new_token_count s2
     \<and> double_faced_count s1 = double_faced_count s2
     \<and> reprint_count s1 = reprint_count s2"

text \<open>An entry without the large image; a token that has such an entry or face.\<close>

definition lacks_large_image :: "'a sf_entry_scheme \<Rightarrow> bool" where
  "lacks_large_image sf =
     (case sf_image_uris sf of None \<Rightarrow> True | Some uris \<Rightarrow> map_of uris ''large'' = None)"

definition token_lacks_image :: "sf_token \<Rightarrow> bool" where
  "token_lacks_image t =
     (if sf_layout t = Some ''double_faced_token''
      then (case sf_card_faces t of None \<Rightarrow> False | Some faces \<Rightarrow> list_ex lacks_large_image faces)
      else lacks_large_image t)"

section \<open>Examples\<close>

definition ex_type :: string where
  "ex_type = ''Token Creature'' @ SUBTYPE_SEP @ ''Goblin''"

definition ex_info :: "string \<Rightarrow> token_info" where
  "ex_info n = \<lparr>token_name = n, token_text = [], token_type = ex_type,
                token_colors = [''R''], token_pt = ''1/1'', token_image = ''https://x/img.png''\<rparr>"

definition ex_prop :: element where
  "ex_prop = Element ''prop'' [] None
     [Element ''colors'' [] (Some ''R'') [], Element ''type'' [] (Some ex_type) [],
      Element ''pt'' [] (Some ''1/1'') []]"

definition ex_card :: "string \<Rightarrow> element" where
  "ex_card n = Element ''card'' [] None [Element ''name'' [] (Some n) [], ex_prop]"

definition ex_set_line :: element where
  "ex_set_line = Element ''set'' [(''picURL'', ''https://x/img.png'')] (Some ''ABC'') []"

definition ex_card_updated :: "string \<Rightarrow> element" where
  "ex_card_updated n =
     Element ''card'' [] None [Element ''name'' [] (Some n) [], ex_prop, ex_set_line]"

definition ex_catalog :: "element list \<Rightarrow> element" where
  "ex_catalog cs = Element ''cockatrice_carddatabase'' [] None [Element ''cards'' [] None cs]"

definition ex_token :: "(string \<times> string) list option \<Rightarrow> sf_token" where
  "ex_token uris =
     \<lparr>sf_name = Some ''Goblin'', sf_oracle_text = Some [], sf_type_line = Some ex_type,
      sf_colors = Some [''R''], sf_power = Some ''1'', sf_toughness = Some ''1'',
      sf_image_uris = uris, sf_layout = Some ''token'', sf_card_faces = None\<rparr>"

definition ex_typed :: "string \<Rightarrow> token_info" where
  "ex_typed ty = \<lparr>token_name = ''X'', token_text = [], token_type = ty,
                  token_colors = [], token_pt = [], token_image = ''u''\<rparr>"

text \<open>An em dash (U+2014, the bytes E2 80 94) between spaces, and the ``Spirit'' token.\<close>

definition EM_DASH_SEP :: string where
  "EM_DASH_SEP = [CHR '' '', CHR 0xE2, CHR 0x80, CHR 0x94, CHR '' '']"

definition ex_spirit :: token_info where
  "ex_spirit =
     \<lparr>token_name = ''Spirit'', token_text = [],
      token_type = ''Token Creature'' @ EM_DASH_SEP @ ''Spirit'',
      token_colors = [''W''], token_pt = ''1/1'', token_image = ''https://x/img.png''\<rparr>"

definition ex_no_text :: sf_token where
  "ex_no_text =
     \<lparr>sf_name = Some ''Goblin'', sf_oracle_text = None, sf_type_line = Some ex_type,
      sf_colors = Some [''R''], sf_power = Some ''1'', sf_toughness = Some ''1'',
      sf_image_uris = Some [(''large'', ''https://x/img.png'')],
      sf_layout = Some ''token'', sf_card_faces = None\<rparr>"

definition ex_info_text :: "string \<Rightarrow> token_info" where
  "ex_info_text n = \<lparr>token_name = n, token_text = ''Haste'', token_type = ex_type,
                     token_colors = [''R''], token_pt = ''1/1'',
                     token_image = ''https://x/img.png''\<rparr>"

definition ex_card_text :: "string \<Rightarrow> element" where
  "ex_card_text n =
     Element ''card'' [] None
       [Element ''name'' [] (Some n) [], Element ''text'' [] (Some ''Haste'') [], ex_prop]"

definition ex_state_new :: sync_state where
  "ex_state_new =
     \<lparr>xml_root = ex_catalog [], new_cards = [createXmlEntry (ex_info ''Goblin'') ''abc''],
      new_token_count = 1, double_faced_count = 0, reprint_count = 0\<rparr>"

definition ex_state_reprint :: sync_state where
  "ex_state_reprint =
     \<lparr>xml_root = ex_catalog [ex_card_updated ''Goblin A'', ex_card ''Elf'',
                              ex_card_updated ''Goblin''],
      new_cards = [], new_token_count = 0, double_faced_count = 0, reprint_count = 2\<rparr>"

section \<open>Lemmas\<close>

subsection \<open>Splitting\<close>

lemma split_aux_none:
  "\<not> sublist sep s \<Longrightarrow> split_aux sep acc s = [rev acc @ s]"
proof (induction s arbitrary: acc)
  case Nil
  then show ?case by simp
next
  case (Cons c cs)
  from Cons.prems have np: "\<not> prefix sep (c # cs)" and ns: "\<not> sublist sep cs"
    by (auto simp: sublist_Cons_right)
  from Cons.IH [OF ns, of "c # acc"] np show ?case by simp
qed

lemma entry_name_no_sep:
  "\<not> sublist SUBTYPE_SEP (token_type ti) \<Longrightarrow> entry_name ti = token_name ti"
  by (simp add: entry_name_def split_def split_aux_none)

text \<open>
  The literal of line 219 has the byte C3: a type line without that byte, such as an
  ASCII type line with em dashes, is never split, and the name stays as it is.
\<close>

lemma no_sep_without_C3: "CHR 0xC3 \<notin> set s \<Longrightarrow> \<not> sublist SUBTYPE_SEP s"
proof
  assume n: "CHR 0xC3 \<notin> set s" and s: "sublist SUBTYPE_SEP s"
  from s have "set SUBTYPE_SEP \<subseteq> set s" by (rule set_mono_sublist)
  moreover have "CHR 0xC3 \<in> set SUBTYPE_SEP" by (simp add: SUBTYPE_SEP_def)
  ultimately show False using n by blast
qed

lemma split_without_C3: "CHR 0xC3 \<notin> set s \<Longrightarrow> split s SUBTYPE_SEP = [s]"
  by (simp add: split_def split_aux_none no_sep_without_C3)

lemma entry_name_without_C3:
  "CHR 0xC3 \<notin> set (token_type ti) \<Longrightarrow> entry_name ti = token_name ti"
  by (simp add: entry_name_no_sep no_sep_without_C3)

subsection \<open>The new entry\<close>

lemma createXmlEntry_name:
  "findtext [Child ''name''] (createXmlEntry ti sc) = Some (entry_name ti)"
  by (simp add: createXmlEntry_def findtext_def find_el_def Let_def)

lemma createXmlEntry_maintype:
  "findtext [Child ''prop'', Child ''maintype''] (createXmlEntry ti sc)
     = Some (maintype_of (token_type ti))"
  by (simp add: createXmlEntry_def findtext_def find_el_def Let_def)

subsection \<open>Paths\<close>

lemma step_matches_Child: "step_matches (Child t) = (\<lambda>e. el_tag e = t)"
  by (rule ext) simp

lemma concat_findall_Nil: "concat (map (findall []) xs) = xs"
  by (induction xs) simp_all

lemma findall_AnyChild: "findall [AnyChild] k = el_children k"
proof -
  have "concat (map (findall []) xs) = xs" for xs :: "element list"
    by (induction xs) simp_all
  then show ?thesis by simp
qed

lemma findall_Child: "findall [Child t] c = filter (\<lambda>e. el_tag e = t) (el_children c)"
  by (simp only: findall.simps(2) concat_findall_Nil step_matches_Child)

lemma catalog_entries_eq:
  "catalog_entries r = concat (map el_children (filter (\<lambda>k. el_tag k = ''cards'') (el_children r)))"
proof -
  have "findall [AnyChild] = el_children" by (rule ext) (rule findall_AnyChild)
  moreover have "step_matches (Child ''cards'') = (\<lambda>k. el_tag k = ''cards'')"
    by (rule ext) simp
  ultimately show ?thesis
    unfolding catalog_entries_def findall.simps(2) [of "Child ''cards''"] by simp
qed

lemma find_el_Child_None:
  "find_el [Child t] c = None \<longleftrightarrow> filter (\<lambda>e. el_tag e = t) (el_children c) = []"
  by (simp only: find_el_def findall_Child split: list.splits) simp

lemma find_el_Child2_Some:
  "find_el [Child t, Child u] c \<noteq> None \<Longrightarrow> filter (\<lambda>e. el_tag e = t) (el_children c) \<noteq> []"
proof
  assume a: "find_el [Child t, Child u] c \<noteq> None"
    and e: "filter (\<lambda>e. el_tag e = t) (el_children c) = []"
  have h: "findall [Child t, Child u] c = []"
    by (simp only: findall.simps(2) [of "Child t"] step_matches_Child e) simp
  from a show False unfolding find_el_def h by simp
qed

lemma findtext_None: "findtext p c = None \<longleftrightarrow> find_el p c = None"
  by (simp add: findtext_def split: option.splits)

lemma filter_take_drop: "filter P (take i xs) @ filter P (drop i xs) = filter P xs"
  by (metis append_take_drop_id filter_append)

lemma findall_el_insert:
  "el_tag new \<noteq> t \<Longrightarrow> findall (Child t # ss) (el_insert i new c) = findall (Child t # ss) c"
  by (simp add: el_insert_def filter_take_drop)

lemma find_el_insert_set_line:
  "t \<noteq> ''set'' \<Longrightarrow> find_el (Child t # ss) (insert_set_line ti sc c) = find_el (Child t # ss) c"
  unfolding find_el_def insert_set_line_def
  by (subst findall_el_insert) (simp_all add: new_set_line_def)

lemma findtext_insert_set_line:
  "t \<noteq> ''set'' \<Longrightarrow> findtext (Child t # ss) (insert_set_line ti sc c) = findtext (Child t # ss) c"
  by (simp add: findtext_def find_el_insert_set_line)

subsection \<open>The loops of xmlMatch\<close>

lemma match_outcome_append:
  "match_outcome (xs @ ys) mf rc =
     (case match_outcome xs mf rc of Inl e \<Rightarrow> Inl e | Inr (mf1, rc1) \<Rightarrow> match_outcome ys mf1 rc1)"
  by (induction xs mf rc rule: match_outcome.induct) simp_all

lemma xmlMatch_entries_result:
  "xmlMatch_entries ti sc cs mf rc =
     (case match_outcome (map (\<lambda>c. card_matches c ti) cs) mf rc of
        Inl e \<Rightarrow> Inl e
      | Inr (mf', rc') \<Rightarrow> Inr (map (updated_entry ti sc) cs, mf', rc'))"
proof (induction cs arbitrary: mf rc)
  case Nil
  then show ?case by simp
next
  case (Cons c cs)
  show ?case
  proof (cases "card_matches c ti")
    case (Inl e)
    then show ?thesis by simp
  next
    case (Inr b)
    then show ?thesis
      by (cases b) (simp_all add: Cons.IH updated_entry_def split: sum.splits)
  qed
qed

lemma xmlMatch_containers_result:
  "xmlMatch_containers ti sc ks mf rc =
     (case match_outcome
             (map (\<lambda>c. card_matches c ti)
                (concat (map el_children (filter (\<lambda>k. el_tag k = ''cards'') ks)))) mf rc of
        Inl e \<Rightarrow> Inl e
      | Inr (mf', rc') \<Rightarrow> Inr (map (updated_container ti sc) ks, mf', rc'))"
proof (induction ks arbitrary: mf rc)
  case Nil
  then show ?case by simp
next
  case (Cons k ks)
  show ?case
  proof (cases "el_tag k = ''cards''")
    case True
    then show ?thesis
      by (simp add: Cons.IH xmlMatch_entries_result match_outcome_append updated_container_def
               split: sum.splits prod.splits)
  next
    case False
    then show ?thesis
      by (simp add: Cons.IH updated_container_def split: sum.splits prod.splits)
  qed
qed

lemma xmlMatch_result:
  "xmlMatch r ti sc rc =
     (case match_outcome (map (\<lambda>c. card_matches c ti) (catalog_entries r)) False rc of
        Inl e \<Rightarrow> Inl e
      | Inr (mf', rc') \<Rightarrow>
          Inr (Element (el_tag r) (el_attrib r) (el_text r)
                 (map (updated_container ti sc) (el_children r)), mf', rc'))"
  by (simp add: xmlMatch_def xmlMatch_containers_result catalog_entries_eq split: sum.splits)

lemma match_outcome_Inr:
  "match_outcome rs mf rc = Inr (mf', rc') \<Longrightarrow>
     (\<forall>r\<in>set rs. \<exists>b. r = Inr b)
     \<and> rc' = rc + length (filter (\<lambda>r. r = Inr True) rs)
     \<and> (mf' \<longleftrightarrow> mf \<or> Inr True \<in> set rs)"
  by (induction rs mf rc rule: match_outcome.induct) auto

lemma match_outcome_total:
  "(\<forall>r\<in>set rs. \<exists>b. r = Inr b) \<Longrightarrow> \<exists>res. match_outcome rs mf rc = Inr res"
  by (induction rs mf rc rule: match_outcome.induct) auto

lemma match_outcome_Inl:
  "match_outcome rs mf rc = Inl e \<Longrightarrow> Inl e \<in> set rs"
  by (induction rs mf rc rule: match_outcome.induct) auto

lemma card_matches_error: "card_matches c ti = Inl e \<Longrightarrow> e = AttributeError"
  by (auto simp: card_matches_def split: option.splits if_splits)

lemma catalog_entries_updated:
  "catalog_entries (Element t a x (map (updated_container ti sc) ks))
     = map (updated_entry ti sc) (catalog_entries (Element t a x ks))"
proof -
  have "concat (map el_children (filter (\<lambda>k. el_tag k = ''cards'') (map (updated_container ti sc) ks)))
        = map (updated_entry ti sc) (concat (map el_children (filter (\<lambda>k. el_tag k = ''cards'') ks)))"
    by (induction ks) (auto simp: updated_container_def)
  then show ?thesis by (simp add: catalog_entries_eq)
qed

lemma xmlMatch_Inr:
  assumes "xmlMatch r ti sc rc = Inr (r', mf, rc')"
  shows "r' = Element (el_tag r) (el_attrib r) (el_text r)
                 (map (updated_container ti sc) (el_children r))"
    and "catalog_entries r' = map (updated_entry ti sc) (catalog_entries r)"
    and "rc' = rc + length (filter (\<lambda>c. card_matches c ti = Inr True) (catalog_entries r))"
    and "mf \<longleftrightarrow> (\<exists>c\<in>set (catalog_entries r). card_matches c ti = Inr True)"
    and "\<forall>c\<in>set (catalog_entries r). \<exists>b. card_matches c ti = Inr b"
proof -
  from assms obtain
    mo: "match_outcome (map (\<lambda>c. card_matches c ti) (catalog_entries r)) False rc = Inr (mf, rc')"
    and r': "r' = Element (el_tag r) (el_attrib r) (el_text r)
                 (map (updated_container ti sc) (el_children r))"
    by (auto simp: xmlMatch_result split: sum.splits)
  show "r' = Element (el_tag r) (el_attrib r) (el_text r)
                 (map (updated_container ti sc) (el_children r))" by (rule r')
  have "catalog_entries r' = map (updated_entry ti sc)
          (catalog_entries (Element (el_tag r) (el_attrib r) (el_text r) (el_children r)))"
    unfolding r' by (rule catalog_entries_updated)
  then show "catalog_entries r' = map (updated_entry ti sc) (catalog_entries r)" by simp
  note m = match_outcome_Inr [OF mo]
  from m show "rc' = rc + length (filter (\<lambda>c. card_matches c ti = Inr True) (catalog_entries r))"
    by (simp add: filter_map comp_def)
  from m have "mf \<longleftrightarrow> (\<exists>c\<in>set (catalog_entries r). Inr True = card_matches c ti)"
    by (simp add: image_iff)
  then show "mf \<longleftrightarrow> (\<exists>c\<in>set (catalog_entries r). card_matches c ti = Inr True)"
    by metis
  from m show "\<forall>c\<in>set (catalog_entries r). \<exists>b. card_matches c ti = Inr b"
    by auto
qed

lemma xmlMatch_Inl: "xmlMatch r ti sc rc = Inl e \<Longrightarrow> e = AttributeError"
proof -
  assume "xmlMatch r ti sc rc = Inl e"
  then have "match_outcome (map (\<lambda>c. card_matches c ti) (catalog_entries r)) False rc = Inl e"
    by (auto simp: xmlMatch_result split: sum.splits)
  then have "Inl e \<in> set (map (\<lambda>c. card_matches c ti) (catalog_entries r))"
    by (rule match_outcome_Inl)
  then show ?thesis by (auto dest: card_matches_error [OF sym])
qed

lemma xmlMatch_raises:
  assumes "c \<in> set (catalog_entries r)" and "card_matches c ti = Inl e"
  shows "xmlMatch r ti sc rc = Inl AttributeError"
proof (cases "xmlMatch r ti sc rc")
  case (Inl e')
  then show ?thesis using xmlMatch_Inl by blast
next
  case (Inr res)
  then obtain r' mf rc' where "xmlMatch r ti sc rc = Inr (r', mf, rc')" by (cases res) auto
  from xmlMatch_Inr(5) [OF this] assms show ?thesis by auto
qed

lemma xmlMatch_returns:
  assumes "\<forall>c\<in>set (catalog_entries r). \<exists>b. card_matches c ti = Inr b"
  shows "\<exists>res. xmlMatch r ti sc rc = Inr res"
proof -
  from assms have "\<forall>x\<in>set (map (\<lambda>c. card_matches c ti) (catalog_entries r)). \<exists>b. x = Inr b"
    by auto
  from match_outcome_total [OF this, of False rc] show ?thesis
    by (auto simp: xmlMatch_result)
qed

subsection \<open>The set line leaves the comparison alone\<close>

lemma entry_sig_insert_set_line: "entry_sig (insert_set_line ti sc c) = entry_sig c"
  by (simp add: entry_sig_def xml_text_of_def xml_colors_of_def xml_pt_of_def
        find_el_insert_set_line findtext_insert_set_line cong: option.case_cong)

lemma entry_sig_updated: "entry_sig (updated_entry ti sc c) = entry_sig c"
  by (simp add: updated_entry_def entry_sig_insert_set_line)

lemma card_matches_sig:
  "card_matches c ti =
     (case entry_sig c of (nm, txt, ty, cols, pt) \<Rightarrow>
        (case nm of None \<Rightarrow> Inl AttributeError
         | Some n \<Rightarrow>
             if \<not> prefix (token_name ti) n then Inr False
             else if txt \<noteq> token_text ti then Inr False
             else (case ty of None \<Rightarrow> Inl AttributeError
                   | Some tyt \<Rightarrow> Inr (tyt = Some (token_type ti) \<and> cols = token_colors ti
                                       \<and> pt = token_pt ti))))"
  by (simp add: card_matches_def entry_sig_def split: option.splits)

lemma card_matches_cong: "entry_sig c = entry_sig c' \<Longrightarrow> card_matches c ti = card_matches c' ti"
  by (simp add: card_matches_sig)

lemma map_card_matches_cong:
  "map entry_sig cs = map entry_sig cs' \<Longrightarrow>
   map (\<lambda>c. card_matches c ti) cs = map (\<lambda>c. card_matches c ti) cs'"
proof -
  assume a: "map entry_sig cs = map entry_sig cs'"
  have f: "(\<lambda>c. card_matches c ti) = (\<lambda>s. case s of (nm, txt, ty, cols, pt) \<Rightarrow>
        (case nm of None \<Rightarrow> Inl AttributeError
         | Some n \<Rightarrow>
             if \<not> prefix (token_name ti) n then Inr False
             else if txt \<noteq> token_text ti then Inr False
             else (case ty of None \<Rightarrow> Inl AttributeError
                   | Some tyt \<Rightarrow> Inr (tyt = Some (token_type ti) \<and> cols = token_colors ti
                                       \<and> pt = token_pt ti)))) \<circ> entry_sig"
    by (rule ext) (simp only: card_matches_sig comp_def)
  show ?thesis
    by (subst (1 2) f) (simp only: map_map [symmetric] a)
qed

lemma xmlMatch_cat_equiv:
  "xmlMatch r ti sc rc = Inr (r', mf, rc') \<Longrightarrow> cat_equiv r' r"
  by (simp add: cat_equiv_def xmlMatch_Inr(2) entry_sig_updated comp_def)

lemma xmlMatch_equiv:
  assumes "cat_equiv r1 r2"
  shows "rel_sum (=) (\<lambda>(r1', m1, c1) (r2', m2, c2). cat_equiv r1' r2' \<and> m1 = m2 \<and> c1 = c2)
           (xmlMatch r1 ti sc rc) (xmlMatch r2 ti sc rc)"
proof -
  from assms have eq: "map (\<lambda>c. card_matches c ti) (catalog_entries r1)
      = map (\<lambda>c. card_matches c ti) (catalog_entries r2)"
    unfolding cat_equiv_def by (rule map_card_matches_cong)
  show ?thesis
  proof (cases "match_outcome (map (\<lambda>c. card_matches c ti) (catalog_entries r2)) False rc")
    case (Inl e)
    then show ?thesis by (simp add: xmlMatch_result eq)
  next
    case (Inr res)
    obtain mf rc' where res: "res = (mf, rc')" by (cases res)
    have x1: "xmlMatch r1 ti sc rc = Inr (Element (el_tag r1) (el_attrib r1) (el_text r1)
                 (map (updated_container ti sc) (el_children r1)), mf, rc')"
      by (simp add: xmlMatch_result eq Inr res)
    have x2: "xmlMatch r2 ti sc rc = Inr (Element (el_tag r2) (el_attrib r2) (el_text r2)
                 (map (updated_container ti sc) (el_children r2)), mf, rc')"
      by (simp add: xmlMatch_result Inr res)
    have "cat_equiv (Element (el_tag r1) (el_attrib r1) (el_text r1)
                 (map (updated_container ti sc) (el_children r1))) r1"
      using x1 by (rule xmlMatch_cat_equiv)
    moreover have "cat_equiv (Element (el_tag r2) (el_attrib r2) (el_text r2)
                 (map (updated_container ti sc) (el_children r2))) r2"
      using x2 by (rule xmlMatch_cat_equiv)
    ultimately show ?thesis using assms
      by (simp add: x1 x2 cat_equiv_def)
  qed
qed

subsection \<open>Where the set line goes\<close>

lemma tag_count2:
  "a \<noteq> b \<Longrightarrow>
   length (filter (\<lambda>e. el_tag e = a) cs) + length (filter (\<lambda>e. el_tag e = b) cs) \<le> length cs"
  by (induction cs) auto

lemma tag_count3:
  "a \<noteq> b \<Longrightarrow> a \<noteq> d \<Longrightarrow> b \<noteq> d \<Longrightarrow>
   length (filter (\<lambda>e. el_tag e = a) cs) + length (filter (\<lambda>e. el_tag e = b) cs)
     + length (filter (\<lambda>e. el_tag e = d) cs) \<le> length cs"
  by (induction cs) auto

lemma card_matches_True_children:
  assumes "card_matches c ti = Inr True"
  shows "filter (\<lambda>e. el_tag e = ''name'') (el_children c) \<noteq> []"
    and "filter (\<lambda>e. el_tag e = ''prop'') (el_children c) \<noteq> []"
proof -
  from assms have n: "find_el [Child ''name''] c \<noteq> None"
    and t: "find_el [Child ''prop'', Child ''type''] c \<noteq> None"
    by (auto simp: card_matches_def findtext_def split: option.splits if_splits)
  from n show "filter (\<lambda>e. el_tag e = ''name'') (el_children c) \<noteq> []"
    by (simp add: find_el_Child_None)
  from t show "filter (\<lambda>e. el_tag e = ''prop'') (el_children c) \<noteq> []"
    by (rule find_el_Child2_Some)
qed

lemma set_line_index_le:
  assumes "card_matches c ti = Inr True"
  shows "set_line_index c \<le> length (el_children c)"
proof -
  let ?n = "length (filter (\<lambda>e. el_tag e = ''name'') (el_children c))"
  let ?p = "length (filter (\<lambda>e. el_tag e = ''prop'') (el_children c))"
  let ?t = "length (filter (\<lambda>e. el_tag e = ''text'') (el_children c))"
  from card_matches_True_children [OF assms] have np: "1 \<le> ?n" "1 \<le> ?p"
    by (simp_all add: Suc_le_eq)
  show ?thesis
  proof (cases "find_el [Child ''text''] c = None")
    case True
    have "?n + ?p \<le> length (el_children c)" by (rule tag_count2) simp
    with np True show ?thesis by (simp add: set_line_index_def)
  next
    case False
    then have "1 \<le> ?t" by (simp add: find_el_Child_None Suc_le_eq)
    moreover have "?n + ?p + ?t \<le> length (el_children c)" by (rule tag_count3) simp_all
    ultimately show ?thesis using np False by (simp add: set_line_index_def)
  qed
qed

subsection \<open>Entries without a name or a type\<close>

lemma card_matches_no_type:
  "find_el [Child ''prop'', Child ''type''] c = None \<Longrightarrow>
   card_matches c ti =
     (case findtext [Child ''name''] c of
        None \<Rightarrow> Inl AttributeError
      | Some n \<Rightarrow> if prefix (token_name ti) n \<and> xml_text_of c = token_text ti
                  then Inl AttributeError else Inr False)"
  by (simp add: card_matches_def split: option.splits)

lemma card_matches_well_formed:
  "find_el [Child ''name''] c \<noteq> None \<Longrightarrow> find_el [Child ''prop'', Child ''type''] c \<noteq> None \<Longrightarrow>
   \<exists>b. card_matches c ti = Inr b"
  by (auto simp: card_matches_def findtext_def split: option.splits)

lemma xmlMatch_well_formed:
  "((\<forall>ti sc rc. \<exists>res. xmlMatch r ti sc rc = Inr res) \<longleftrightarrow>
      (\<forall>c\<in>set (catalog_entries r).
         find_el [Child ''name''] c \<noteq> None \<and> find_el [Child ''prop'', Child ''type''] c \<noteq> None))
   \<and> ((\<exists>c\<in>set (catalog_entries r). find_el [Child ''name''] c = None) \<longrightarrow>
        (\<forall>ti sc rc. xmlMatch r ti sc rc = Inl AttributeError))
   \<and> ((\<exists>c\<in>set (catalog_entries r). find_el [Child ''prop'', Child ''type''] c = None) \<longrightarrow>
        (\<exists>ti. \<forall>sc rc. xmlMatch r ti sc rc = Inl AttributeError))"
proof -
  have noname: "xmlMatch r ti sc rc = Inl AttributeError"
    if "c \<in> set (catalog_entries r)" "find_el [Child ''name''] c = None" for c ti sc rc
  proof -
    from that(2) have "card_matches c ti = Inl AttributeError"
      by (simp add: card_matches_def findtext_def)
    with that(1) show ?thesis by (rule xmlMatch_raises)
  qed
  have notype: "\<exists>ti. \<forall>sc rc. xmlMatch r ti sc rc = Inl AttributeError"
    if c: "c \<in> set (catalog_entries r)" and t: "find_el [Child ''prop'', Child ''type''] c = None"
    for c
  proof -
    let ?ti = "\<lparr>token_name = [], token_text = xml_text_of c, token_type = [],
                token_colors = [], token_pt = [], token_image = []\<rparr>"
    have "card_matches c ?ti = Inl AttributeError"
      by (simp add: card_matches_no_type [OF t] split: option.splits)
    with c have "\<forall>sc rc. xmlMatch r ?ti sc rc = Inl AttributeError"
      by (blast intro: xmlMatch_raises)
    then show ?thesis ..
  qed
  have total: "\<exists>res. xmlMatch r ti sc rc = Inr res"
    if "\<forall>c\<in>set (catalog_entries r).
         find_el [Child ''name''] c \<noteq> None \<and> find_el [Child ''prop'', Child ''type''] c \<noteq> None"
    for ti sc rc
    using that by (intro xmlMatch_returns ballI card_matches_well_formed) auto
  have nottotal: "\<exists>ti sc rc. \<forall>res. xmlMatch r ti sc rc \<noteq> Inr res"
    if "c \<in> set (catalog_entries r)"
      "find_el [Child ''name''] c = None \<or> find_el [Child ''prop'', Child ''type''] c = None"
    for c
  proof -
    from that(2) show ?thesis
    proof
      assume "find_el [Child ''name''] c = None"
      from noname [OF that(1) this] show ?thesis by (metis sum.distinct(1))
    next
      assume "find_el [Child ''prop'', Child ''type''] c = None"
      from notype [OF that(1) this] show ?thesis by (metis sum.distinct(1))
    qed
  qed
  show ?thesis
  proof (intro conjI)
    show "(\<forall>ti sc rc. \<exists>res. xmlMatch r ti sc rc = Inr res) \<longleftrightarrow>
      (\<forall>c\<in>set (catalog_entries r).
         find_el [Child ''name''] c \<noteq> None \<and> find_el [Child ''prop'', Child ''type''] c \<noteq> None)"
    proof (rule iffI)
      assume tot: "\<forall>ti sc rc. \<exists>res. xmlMatch r ti sc rc = Inr res"
      show "\<forall>c\<in>set (catalog_entries r).
         find_el [Child ''name''] c \<noteq> None \<and> find_el [Child ''prop'', Child ''type''] c \<noteq> None"
      proof (rule ccontr)
        assume "\<not> (\<forall>c\<in>set (catalog_entries r).
         find_el [Child ''name''] c \<noteq> None \<and> find_el [Child ''prop'', Child ''type''] c \<noteq> None)"
        then obtain c where "c \<in> set (catalog_entries r)"
          "find_el [Child ''name''] c = None \<or> find_el [Child ''prop'', Child ''type''] c = None"
          by auto
        from nottotal [OF this] obtain ti sc rc where "\<forall>res. xmlMatch r ti sc rc \<noteq> Inr res"
          by blast
        with tot show False by blast
      qed
    next
      assume "\<forall>c\<in>set (catalog_entries r).
         find_el [Child ''name''] c \<noteq> None \<and> find_el [Child ''prop'', Child ''type''] c \<noteq> None"
      then show "\<forall>ti sc rc. \<exists>res. xmlMatch r ti sc rc = Inr res"
        by (intro allI total)
    qed
    show "(\<exists>c\<in>set (catalog_entries r). find_el [Child ''name''] c = None) \<longrightarrow>
        (\<forall>ti sc rc. xmlMatch r ti sc rc = Inl AttributeError)"
      using noname by blast
    show "(\<exists>c\<in>set (catalog_entries r). find_el [Child ''prop'', Child ''type''] c = None) \<longrightarrow>
        (\<exists>ti. \<forall>sc rc. xmlMatch r ti sc rc = Inl AttributeError)"
      using notype by blast
  qed
qed

subsection \<open>The main loop on catalogs that read alike\<close>

lemma cat_equiv_refl: "cat_equiv r r"
  by (simp add: cat_equiv_def)

lemma cat_equiv_sym: "cat_equiv r1 r2 \<Longrightarrow> cat_equiv r2 r1"
  by (simp add: cat_equiv_def)

lemma cat_equiv_trans: "cat_equiv r1 r2 \<Longrightarrow> cat_equiv r2 r3 \<Longrightarrow> cat_equiv r1 r3"
  by (simp add: cat_equiv_def)

lemma process_entry_root:
  "process_entry sc sf s = Inr s' \<Longrightarrow> cat_equiv (xml_root s') (xml_root s)"
  by (auto simp: process_entry_def split: sum.splits prod.splits if_splits
           dest: xmlMatch_cat_equiv)

lemma process_entry_equiv:
  assumes e: "state_equiv s1 s2"
  shows "rel_sum (=) state_equiv (process_entry sc sf s1) (process_entry sc sf s2)"
proof (cases "fetchTokenInfo sf")
  case (Inl err)
  then show ?thesis by (simp add: process_entry_def)
next
  case (Inr info)
  from e have ce: "cat_equiv (xml_root s1) (xml_root s2)"
    and rc: "reprint_count s2 = reprint_count s1"
    by (simp_all add: state_equiv_def)
  from xmlMatch_equiv [OF ce, of info sc "reprint_count s1"] e show ?thesis
    by (cases "xmlMatch (xml_root s1) info sc (reprint_count s1)";
        cases "xmlMatch (xml_root s2) info sc (reprint_count s1)")
       (auto simp: process_entry_def Inr rc state_equiv_def)
qed

lemma process_faces_root:
  "process_faces sc faces s = Inr s' \<Longrightarrow> cat_equiv (xml_root s') (xml_root s)"
proof (induction faces arbitrary: s)
  case Nil
  then show ?case by (simp add: cat_equiv_refl)
next
  case (Cons f faces)
  then show ?case
    by (auto split: sum.splits dest!: process_entry_root intro: cat_equiv_trans)
qed

lemma process_faces_equiv:
  "state_equiv s1 s2 \<Longrightarrow>
   rel_sum (=) state_equiv (process_faces sc faces s1) (process_faces sc faces s2)"
proof (induction faces arbitrary: s1 s2)
  case Nil
  then show ?case by simp
next
  case (Cons f faces)
  from process_entry_equiv [OF Cons.prems, of sc f] show ?case
    by (cases "process_entry sc f s1"; cases "process_entry sc f s2") (auto intro: Cons.IH)
qed

lemma process_token_root:
  "process_token sc t s = Inr s' \<Longrightarrow> cat_equiv (xml_root s') (xml_root s)"
  by (auto simp: process_token_def split: option.splits if_splits
           dest: process_faces_root process_entry_root)

lemma process_token_equiv:
  assumes "state_equiv s1 s2"
  shows "rel_sum (=) state_equiv (process_token sc t s1) (process_token sc t s2)"
proof -
  from assms have "state_equiv (s1\<lparr>double_faced_count := Suc (double_faced_count s1)\<rparr>)
                               (s2\<lparr>double_faced_count := Suc (double_faced_count s2)\<rparr>)"
    by (simp add: state_equiv_def)
  then show ?thesis using assms
    by (auto simp: process_token_def split: option.splits
             intro: process_faces_equiv process_entry_equiv)
qed

lemma process_tokens_root:
  "process_tokens sc ts s = Inr s' \<Longrightarrow> cat_equiv (xml_root s') (xml_root s)"
proof (induction ts arbitrary: s)
  case Nil
  then show ?case by (simp add: cat_equiv_refl)
next
  case (Cons t ts)
  then show ?case
    by (auto split: sum.splits dest!: process_token_root intro: cat_equiv_trans)
qed

lemma process_tokens_equiv:
  "state_equiv s1 s2 \<Longrightarrow>
   rel_sum (=) state_equiv (process_tokens sc ts s1) (process_tokens sc ts s2)"
proof (induction ts arbitrary: s1 s2)
  case Nil
  then show ?case by simp
next
  case (Cons t ts)
  from process_token_equiv [OF Cons.prems, of sc t] show ?case
    by (cases "process_token sc t s1"; cases "process_token sc t s2") (auto intro: Cons.IH)
qed

subsection \<open>fetchTokenInfo\<close>

lemma fetchTokenInfo_Inr_text:
  "fetchTokenInfo sf = Inr ti \<Longrightarrow> sf_oracle_text sf = Some (token_text ti)"
  by (auto simp: fetchTokenInfo_def Let_def split: option.splits)

lemma fetchTokenInfo_no_text:
  "sf_oracle_text sf = None \<Longrightarrow>
   fetchTokenInfo sf = Inl (KeyError (if sf_name sf = None then ''name'' else ''oracle_text''))"
  by (simp add: fetchTokenInfo_def split: option.splits)

lemma fetchTokenInfo_returns:
  "sf_name sf = Some n \<Longrightarrow> sf_oracle_text sf = Some txt \<Longrightarrow> sf_type_line sf = Some ty \<Longrightarrow>
   sf_colors sf = Some cols \<Longrightarrow> sf_image_uris sf = Some uris \<Longrightarrow>
   map_of uris ''large'' = Some img \<Longrightarrow> \<exists>ti'. fetchTokenInfo sf = Inr ti'"
  by (simp add: fetchTokenInfo_def Let_def)

subsection \<open>The main loop on a token without image\<close>

lemma fetchTokenInfo_lacks:
  "lacks_large_image sf \<Longrightarrow> \<exists>k. fetchTokenInfo sf = Inl (KeyError k)"
  by (auto simp: lacks_large_image_def fetchTokenInfo_def Let_def split: option.splits)

lemma process_entry_lacks:
  "lacks_large_image sf \<Longrightarrow> \<exists>e. process_entry sc sf st = Inl e"
  by (auto simp: process_entry_def dest!: fetchTokenInfo_lacks)

lemma process_faces_lacks:
  "list_ex lacks_large_image faces \<Longrightarrow> \<exists>e. process_faces sc faces st = Inl e"
proof (induction faces arbitrary: st)
  case Nil
  then show ?case by simp
next
  case (Cons f faces)
  show ?case
  proof (cases "process_entry sc f st")
    case (Inl e)
    then show ?thesis by simp
  next
    case (Inr st')
    with process_entry_lacks [of f sc st] have "\<not> lacks_large_image f" by auto
    with Cons.prems have "list_ex lacks_large_image faces" by simp
    from Cons.IH [OF this, of st'] Inr show ?thesis by simp
  qed
qed

lemma process_token_lacks:
  "token_lacks_image t \<Longrightarrow> \<exists>e. process_token sc t st = Inl e"
  by (auto simp: token_lacks_image_def process_token_def
           split: option.splits if_splits
           intro: process_faces_lacks process_entry_lacks)

lemma process_tokens_lacks:
  "list_ex token_lacks_image ts \<Longrightarrow> \<exists>e. process_tokens sc ts st = Inl e"
proof (induction ts arbitrary: st)
  case Nil
  then show ?case by simp
next
  case (Cons t ts)
  show ?case
  proof (cases "process_token sc t st")
    case (Inl e)
    then show ?thesis by simp
  next
    case (Inr st')
    with process_token_lacks [of t sc st] have "\<not> token_lacks_image t" by auto
    with Cons.prems have "list_ex token_lacks_image ts" by simp
    from Cons.IH [OF this, of st'] Inr show ?thesis by simp
  qed
qed

subsection \<open>The examples evaluated\<close>

lemma upper_abc: "upper ''abc'' = ''ABC''"
  by code_simp

lemma ex_match_A: "card_matches (ex_card ''Goblin A'') (ex_info ''Goblin'') = Inr True"
  by (simp add: card_matches_def ex_card_def ex_prop_def ex_info_def findtext_def find_el_def
        xml_text_of_def xml_colors_of_def xml_pt_of_def)

lemma ex_match_C: "card_matches (ex_card ''Elf'') (ex_info ''Goblin'') = Inr False"
  by (simp add: card_matches_def ex_card_def ex_prop_def ex_info_def findtext_def find_el_def
        xml_text_of_def xml_colors_of_def xml_pt_of_def)

lemma ex_match_D: "card_matches (ex_card ''Goblin'') (ex_info ''Goblin'') = Inr True"
  by (simp add: card_matches_def ex_card_def ex_prop_def ex_info_def findtext_def find_el_def
        xml_text_of_def xml_colors_of_def xml_pt_of_def)

lemma ex_match_text: "card_matches (ex_card_text ''Goblin'') (ex_info_text ''Goblin'') = Inr True"
  by (simp add: card_matches_def ex_card_text_def ex_prop_def ex_info_text_def findtext_def
        find_el_def xml_text_of_def xml_colors_of_def xml_pt_of_def)

lemma ex_insert: "insert_set_line (ex_info m) ''abc'' (ex_card n) = ex_card_updated n"
  by (simp add: insert_set_line_def set_line_index_def el_insert_def new_set_line_def upper_abc
        ex_card_def ex_card_updated_def ex_set_line_def ex_info_def find_el_def)

lemma ex_xmlMatch:
  "xmlMatch (ex_catalog [ex_card ''Goblin A'', ex_card ''Elf'', ex_card ''Goblin''])
     (ex_info ''Goblin'') ''abc'' rc
   = Inr (ex_catalog [ex_card_updated ''Goblin A'', ex_card ''Elf'', ex_card_updated ''Goblin''],
          True, Suc (Suc rc))"
  by (simp add: xmlMatch_def ex_catalog_def ex_match_A ex_match_C ex_match_D ex_insert)

lemma ex_fetch: "fetchTokenInfo (ex_token (Some [(''large'', ''https://x/img.png'')])) = Inr (ex_info ''Goblin'')"
  by (simp add: fetchTokenInfo_def ex_token_def ex_info_def)

lemma ex_fetch_bad: "fetchTokenInfo (ex_token None) = Inl (KeyError ''image_uris'')"
  by (simp add: fetchTokenInfo_def ex_token_def)

lemma ex_run_bad:
  "updateTokenXML ''abc'' (ex_catalog [])
     [ex_token None, ex_token (Some [(''large'', ''https://x/img.png'')])]
   = Inl (KeyError ''image_uris'')"
proof -
  have l: "sf_layout (ex_token uris) = Some ''token''" for uris by (simp add: ex_token_def)
  show ?thesis
    by (simp add: updateTokenXML_def process_token_def process_entry_def ex_fetch_bad l)
qed

lemma ex_run_empty:
  "updateTokenXML ''abc'' (ex_catalog []) [ex_token (Some [(''large'', ''https://x/img.png'')])]
   = Inr ex_state_new"
proof -
  have l: "sf_layout (ex_token uris) = Some ''token''" for uris by (simp add: ex_token_def)
  have m: "xmlMatch (ex_catalog []) ti sc rc = Inr (ex_catalog [], False, rc)" for ti sc rc
    by (simp add: xmlMatch_def ex_catalog_def)
  show ?thesis
    by (simp add: updateTokenXML_def process_token_def process_entry_def ex_fetch l m ex_state_new_def)
qed

lemma ex_run_reprint:
  "updateTokenXML ''abc'' (ex_catalog [ex_card ''Goblin A'', ex_card ''Elf'', ex_card ''Goblin''])
     [ex_token (Some [(''large'', ''https://x/img.png'')])] = Inr ex_state_reprint"
proof -
  have l: "sf_layout (ex_token uris) = Some ''token''" for uris by (simp add: ex_token_def)
  show ?thesis
    by (simp add: updateTokenXML_def process_token_def process_entry_def ex_fetch l ex_xmlMatch
          ex_state_reprint_def)
qed

section \<open>The claims\<close>

subsection \<open>C1: the match condition\<close>

text \<open>
  Claim C1.  For every catalog entry and every normalized record, \<^verbatim>\<open>xmlMatch\<close> declares a
  match exactly when the entry's name starts with the record's name, the entry's text
  (the empty string when there is no \<^verbatim>\<open>text\<close> child) equals the record's text, the text of
  the entry's \<^verbatim>\<open>prop/type\<close> element is the record's type, the entry's sorted colors (empty
  when there is no \<^verbatim>\<open>prop/colors\<close>) equal the record's colors, which \<^verbatim>\<open>fetchTokenInfo\<close>
  has sorted, and the entry's power and toughness (empty when there is no \<^verbatim>\<open>prop/pt\<close>)
  equal the record's.
\<close>

theorem card_matches_all_conditions:
  "card_matches c ti = Inr True \<longleftrightarrow>
     (\<exists>n. findtext [Child ''name''] c = Some n \<and> prefix (token_name ti) n)
   \<and> (case findtext [Child ''text''] c of None \<Rightarrow> [] | Some t \<Rightarrow> t) = token_text ti
   \<and> (\<exists>ty. find_el [Child ''prop'', Child ''type''] c = Some ty
            \<and> el_text ty = Some (token_type ti))
   \<and> sort (case findtext [Child ''prop'', Child ''colors''] c of
              None \<Rightarrow> [] | Some t \<Rightarrow> map (\<lambda>ch. [ch]) t) = token_colors ti
   \<and> (case findtext [Child ''prop'', Child ''pt''] c of None \<Rightarrow> [] | Some t \<Rightarrow> t)
        = token_pt ti"
  by (auto simp: card_matches_def xml_text_of_def xml_colors_of_def xml_pt_of_def findtext_def
           split: option.splits)

text \<open>The entry ``Goblin A'' matches the record ``Goblin''; not the other way round.\<close>

theorem card_matches_all_conditions_witness:
  "card_matches (ex_card ''Goblin A'') (ex_info ''Goblin'') = Inr True
   \<and> card_matches (ex_card ''Goblin'') (ex_info ''Goblin A'') \<noteq> Inr True"
  using card_matches_all_conditions [of "ex_card ''Goblin A''" "ex_info ''Goblin''"]
    card_matches_all_conditions [of "ex_card ''Goblin''" "ex_info ''Goblin A''"]
  by (simp add: ex_card_def ex_prop_def ex_info_def findtext_def find_el_def)

subsection \<open>C2: the maintype\<close>

text \<open>
  Claim C2 says that any type line containing both ``Artifact'' and ``Creature'' gets the
  maintype Creature.  The tests for ``Emblem'' and ``Dungeon'' come first, so this type
  line gets Emblem.
\<close>

theorem maintype_both_counterexample:
  "sublist ''Artifact'' (token_type (ex_typed ''Emblem Artifact Creature''))
   \<and> sublist ''Creature'' (token_type (ex_typed ''Emblem Artifact Creature''))
   \<and> findtext [Child ''prop'', Child ''maintype'']
        (createXmlEntry (ex_typed ''Emblem Artifact Creature'') ''abc'') = Some ''Emblem''
   \<and> findtext [Child ''prop'', Child ''maintype'']
        (createXmlEntry (ex_typed ''Emblem Artifact Creature'') ''abc'') \<noteq> Some ''Creature''"
  by (simp add: createXmlEntry_maintype maintype_of_def ex_typed_def sublist_code)

text \<open>
  Claim C2, amended.  The maintype of the new entry is found by the first of the substring
  tests Emblem, Dungeon, Creature, Artifact, Enchantment that succeeds on the type line,
  and is ``Please edit manually'' when none does.  A type line containing ``Artifact'' and
  ``Creature'' and neither ``Emblem'' nor ``Dungeon'' gets Creature, and no type line
  containing ``Creature'' gets Artifact.
\<close>

theorem createXmlEntry_maintype_priority:
  "findtext [Child ''prop'', Child ''maintype''] (createXmlEntry ti sc) =
     Some (if sublist ''Emblem'' (token_type ti) then ''Emblem''
           else if sublist ''Dungeon'' (token_type ti) then ''Dungeon''
           else if sublist ''Creature'' (token_type ti) then ''Creature''
           else if sublist ''Artifact'' (token_type ti) then ''Artifact''
           else if sublist ''Enchantment'' (token_type ti) then ''Enchantment''
           else ''Please edit manually'')
   \<and> (sublist ''Artifact'' (token_type ti) \<and> sublist ''Creature'' (token_type ti)
        \<and> \<not> sublist ''Emblem'' (token_type ti) \<and> \<not> sublist ''Dungeon'' (token_type ti)
      \<longrightarrow> findtext [Child ''prop'', Child ''maintype''] (createXmlEntry ti sc)
            = Some ''Creature'')
   \<and> (sublist ''Creature'' (token_type ti)
      \<longrightarrow> findtext [Child ''prop'', Child ''maintype''] (createXmlEntry ti sc)
            \<noteq> Some ''Artifact'')"
  by (simp add: createXmlEntry_maintype maintype_of_def)

theorem createXmlEntry_maintype_priority_witness:
  "sublist ''Artifact'' (token_type (ex_typed ''Artifact Creature Token''))
   \<and> sublist ''Creature'' (token_type (ex_typed ''Artifact Creature Token''))
   \<and> \<not> sublist ''Emblem'' (token_type (ex_typed ''Artifact Creature Token''))
   \<and> \<not> sublist ''Dungeon'' (token_type (ex_typed ''Artifact Creature Token''))
   \<and> findtext [Child ''prop'', Child ''maintype'']
        (createXmlEntry (ex_typed ''Artifact Creature Token'') ''abc'') = Some ''Creature''"
  using createXmlEntry_maintype_priority [of "ex_typed ''Artifact Creature Token''" "''abc''"]
  by (simp add: ex_typed_def sublist_code)

subsection \<open>C3: the subtype and the name\<close>

text \<open>
  Claim C3.  For a type line with the em dash separator the name of a token that is named
  like its subtype gets the suffix `` Token''; the comment on line 218 says that what
  follows the em dash is the subtype.  The literal that line 219 splits on is not an em
  dash between spaces (\<open>EM_DASH_SEP\<close>) but \<open>SUBTYPE_SEP\<close>, which a type line written with
  em dashes does not contain: the split has one piece, \<^verbatim>\<open>[1]\<close> raises IndexError, the handler passes and the
  name stays as it is.  The code evaluated at the record named ``Spirit'' with the type
  line ``Token Creature'', em dash, ``Spirit'':
\<close>

theorem createXmlEntry_em_dash_not_split:
  "token_name ex_spirit = ''Spirit''
   \<and> token_type ex_spirit = ''Token Creature'' @ EM_DASH_SEP @ ''Spirit''
   \<and> split (token_type ex_spirit) SUBTYPE_SEP = [token_type ex_spirit]
   \<and> findtext [Child ''name''] (createXmlEntry ex_spirit ''abc'') = Some ''Spirit''
   \<and> findtext [Child ''name''] (createXmlEntry ex_spirit ''abc'') \<noteq> Some ''Spirit Token''"
proof -
  have 1: "token_name ex_spirit = ''Spirit''"
    and 2: "token_type ex_spirit = ''Token Creature'' @ EM_DASH_SEP @ ''Spirit''"
    by (simp_all add: ex_spirit_def)
  have n: "CHR 0xC3 \<notin> set (token_type ex_spirit)"
    by (simp add: ex_spirit_def EM_DASH_SEP_def)
  then have 3: "split (token_type ex_spirit) SUBTYPE_SEP = [token_type ex_spirit]"
    by (rule split_without_C3)
  from n have 4: "findtext [Child ''name''] (createXmlEntry ex_spirit ''abc'') = Some ''Spirit''"
    by (simp add: createXmlEntry_name entry_name_without_C3 1)
  then have 5: "findtext [Child ''name''] (createXmlEntry ex_spirit ''abc'') \<noteq> Some ''Spirit Token''"
    by simp
  from 1 2 3 4 5 show ?thesis by (intro conjI)
qed

subsection \<open>C4: the rules text\<close>

text \<open>
  Claim C4 says that normalization succeeds with an empty text when the entry has no
  \<^verbatim>\<open>oracle_text\<close>.  The code reads \<^verbatim>\<open>sf_entry['oracle_text']\<close> unguarded: KeyError.
\<close>

theorem fetchTokenInfo_no_text_counterexample:
  "sf_oracle_text ex_no_text = None
   \<and> fetchTokenInfo ex_no_text = Inl (KeyError ''oracle_text'')"
  by (simp add: fetchTokenInfo_def ex_no_text_def)

text \<open>
  Claim C4, amended.  When \<^verbatim>\<open>fetchTokenInfo\<close> returns, the text of the result is the
  entry's \<^verbatim>\<open>oracle_text\<close> as it is.  When the entry has no \<^verbatim>\<open>oracle_text\<close>,
  \<^verbatim>\<open>fetchTokenInfo\<close> raises KeyError.  It returns when name, text, type line, colors and
  the large image are all there.
\<close>

theorem fetchTokenInfo_text:
  "(fetchTokenInfo sf = Inr ti \<longrightarrow> sf_oracle_text sf = Some (token_text ti))
   \<and> (sf_oracle_text sf = None \<longrightarrow>
        fetchTokenInfo sf
          = Inl (KeyError (if sf_name sf = None then ''name'' else ''oracle_text'')))
   \<and> (sf_name sf \<noteq> None \<and> sf_oracle_text sf \<noteq> None \<and> sf_type_line sf \<noteq> None
        \<and> sf_colors sf \<noteq> None
        \<and> (\<exists>uris. sf_image_uris sf = Some uris \<and> map_of uris ''large'' \<noteq> None)
      \<longrightarrow> (\<exists>ti'. fetchTokenInfo sf = Inr ti'))"
  using fetchTokenInfo_Inr_text [of sf ti] fetchTokenInfo_no_text [of sf]
    fetchTokenInfo_returns [of sf]
  by blast

theorem fetchTokenInfo_text_witness:
  "fetchTokenInfo (ex_token (Some [(''large'', ''https://x/img.png'')])) = Inr (ex_info ''Goblin'')
   \<and> sf_oracle_text (ex_token (Some [(''large'', ''https://x/img.png'')]))
       = Some (token_text (ex_info ''Goblin''))
   \<and> sf_oracle_text ex_no_text = None
   \<and> fetchTokenInfo ex_no_text = Inl (KeyError ''oracle_text'')"
proof -
  have 1: "sf_oracle_text (ex_token (Some [(''large'', ''https://x/img.png'')]))
       = Some (token_text (ex_info ''Goblin''))"
    using fetchTokenInfo_text
      [of "ex_token (Some [(''large'', ''https://x/img.png'')])" "ex_info ''Goblin''",
       THEN conjunct1, THEN mp, OF ex_fetch] .
  have 2: "sf_oracle_text ex_no_text = None" by (simp add: ex_no_text_def)
  have "fetchTokenInfo ex_no_text
          = Inl (KeyError (if sf_name ex_no_text = None then ''name'' else ''oracle_text''))"
    using fetchTokenInfo_text [of ex_no_text, THEN conjunct2, THEN conjunct1, THEN mp, OF 2] .
  then have 3: "fetchTokenInfo ex_no_text = Inl (KeyError ''oracle_text'')"
    by (simp add: ex_no_text_def)
  from ex_fetch 1 2 3 show ?thesis by (intro conjI)
qed

subsection \<open>C5: every match is updated and counted\<close>

text \<open>
  Claim C5.  On a catalog in which every entry has a \<^verbatim>\<open>name\<close> child and a \<^verbatim>\<open>prop/type\<close>
  element \<^verbatim>\<open>xmlMatch\<close> returns.  When it returns, every catalog entry that satisfies the
  match condition, and no other, has a new \<^verbatim>\<open>set\<close> element whose text is the uppercased
  set code and whose \<^verbatim>\<open>picURL\<close> is the record's image; \<^verbatim>\<open>reprint_count\<close> has grown by the
  number of matching entries; and the result is true exactly when some entry matched.
\<close>

theorem xmlMatch_updates_every_match:
  "((\<forall>c\<in>set (catalog_entries r).
       find_el [Child ''name''] c \<noteq> None \<and> find_el [Child ''prop'', Child ''type''] c \<noteq> None)
     \<longrightarrow> (\<exists>res. xmlMatch r ti sc rc = Inr res))
   \<and> (xmlMatch r ti sc rc = Inr (r', mf, rc') \<longrightarrow>
        catalog_entries r' =
          map (\<lambda>c. if card_matches c ti = Inr True
                   then el_insert (if find_el [Child ''text''] c \<noteq> None then 3 else 2)
                          (Element ''set'' [(''picURL'', token_image ti)] (Some (upper sc)) []) c
                   else c) (catalog_entries r)
        \<and> rc' = rc + length (filter (\<lambda>c. card_matches c ti = Inr True) (catalog_entries r))
        \<and> (mf \<longleftrightarrow> (\<exists>c\<in>set (catalog_entries r). card_matches c ti = Inr True)))"
proof (intro conjI impI)
  assume "\<forall>c\<in>set (catalog_entries r).
       find_el [Child ''name''] c \<noteq> None \<and> find_el [Child ''prop'', Child ''type''] c \<noteq> None"
  then show "\<exists>res. xmlMatch r ti sc rc = Inr res"
    by (intro xmlMatch_returns ballI card_matches_well_formed) auto
next
  assume a: "xmlMatch r ti sc rc = Inr (r', mf, rc')"
  have u: "updated_entry ti sc = (\<lambda>c. if card_matches c ti = Inr True
                then el_insert (if find_el [Child ''text''] c \<noteq> None then 3 else 2)
                       (Element ''set'' [(''picURL'', token_image ti)] (Some (upper sc)) []) c
                else c)"
    by (rule ext) (simp add: updated_entry_def insert_set_line_def set_line_index_def new_set_line_def)
  from xmlMatch_Inr(2) [OF a]
  show "catalog_entries r' =
          map (\<lambda>c. if card_matches c ti = Inr True
                   then el_insert (if find_el [Child ''text''] c \<noteq> None then 3 else 2)
                          (Element ''set'' [(''picURL'', token_image ti)] (Some (upper sc)) []) c
                   else c) (catalog_entries r)"
    by (simp only: u)
  from xmlMatch_Inr(3) [OF a]
  show "rc' = rc + length (filter (\<lambda>c. card_matches c ti = Inr True) (catalog_entries r))" .
  from xmlMatch_Inr(4) [OF a]
  show "mf \<longleftrightarrow> (\<exists>c\<in>set (catalog_entries r). card_matches c ti = Inr True)" .
qed

text \<open>Two of three entries match: both get the line, the counter goes from 5 to 7.\<close>

theorem xmlMatch_updates_every_match_witness:
  "list_all (\<lambda>c. find_el [Child ''name''] c \<noteq> None
                  \<and> find_el [Child ''prop'', Child ''type''] c \<noteq> None)
     (catalog_entries (ex_catalog [ex_card ''Goblin A'', ex_card ''Elf'', ex_card ''Goblin'']))
   \<and> (\<exists>res. xmlMatch (ex_catalog [ex_card ''Goblin A'', ex_card ''Elf'', ex_card ''Goblin''])
             (ex_info ''Goblin'') ''abc'' 5 = Inr res)
   \<and> xmlMatch (ex_catalog [ex_card ''Goblin A'', ex_card ''Elf'', ex_card ''Goblin''])
     (ex_info ''Goblin'') ''abc'' 5
   = Inr (ex_catalog [ex_card_updated ''Goblin A'', ex_card ''Elf'', ex_card_updated ''Goblin''],
          True, 7)
   \<and> (7::nat) = 5 + length (filter (\<lambda>c. card_matches c (ex_info ''Goblin'') = Inr True)
        (catalog_entries (ex_catalog [ex_card ''Goblin A'', ex_card ''Elf'', ex_card ''Goblin''])))
   \<and> (\<exists>c\<in>set (catalog_entries
                 (ex_catalog [ex_card ''Goblin A'', ex_card ''Elf'', ex_card ''Goblin''])).
         card_matches c (ex_info ''Goblin'') = Inr True)"
proof -
  let ?cat = "ex_catalog [ex_card ''Goblin A'', ex_card ''Elf'', ex_card ''Goblin'']"
  have w: "\<forall>c\<in>set (catalog_entries ?cat).
       find_el [Child ''name''] c \<noteq> None \<and> find_el [Child ''prop'', Child ''type''] c \<noteq> None"
    by (simp add: catalog_entries_def ex_catalog_def ex_card_def ex_prop_def find_el_def)
  then have 1: "list_all (\<lambda>c. find_el [Child ''name''] c \<noteq> None
                  \<and> find_el [Child ''prop'', Child ''type''] c \<noteq> None) (catalog_entries ?cat)"
    by (simp only: list_all_iff)
  have 2: "\<exists>res. xmlMatch ?cat (ex_info ''Goblin'') ''abc'' 5 = Inr res"
    using xmlMatch_updates_every_match
      [of ?cat "ex_info ''Goblin''" "''abc''" 5, THEN conjunct1, THEN mp, OF w] .
  have e: "xmlMatch ?cat (ex_info ''Goblin'') ''abc'' 5
   = Inr (ex_catalog [ex_card_updated ''Goblin A'', ex_card ''Elf'', ex_card_updated ''Goblin''],
          True, 7)"
    using ex_xmlMatch [of 5] by simp
  note r = xmlMatch_updates_every_match
      [of ?cat "ex_info ''Goblin''" "''abc''" 5 _ True 7, THEN conjunct2, THEN mp, OF e]
  from r have 3: "(7::nat) = 5 + length (filter (\<lambda>c. card_matches c (ex_info ''Goblin'') = Inr True)
        (catalog_entries ?cat))"
    by (rule conjunct1 [OF conjunct2])
  from r have 4: "\<exists>c\<in>set (catalog_entries ?cat). card_matches c (ex_info ''Goblin'') = Inr True"
    by simp
  from 1 2 e 3 4 show ?thesis by (intro conjI)
qed

subsection \<open>C6: the cmc element\<close>

text \<open>
  Claim C6.  The new entry has a \<^verbatim>\<open>cmc\<close> element, with text ``0'', exactly when the
  record's type is not one of the four strings Emblem, Dungeon, Card, Token; it is a child
  of \<^verbatim>\<open>prop\<close>, and the entry has no other.
\<close>

theorem createXmlEntry_cmc_iff:
  "findall [Child ''prop'', Child ''cmc''] (createXmlEntry ti sc)
     = (if token_type ti \<in> {''Emblem'', ''Dungeon'', ''Card'', ''Token''} then []
        else [Element ''cmc'' [] (Some ''0'') []])
   \<and> findall [Child ''cmc''] (createXmlEntry ti sc) = []"
  by (simp add: createXmlEntry_def Let_def SHORT_TAG_LIST_def)

theorem createXmlEntry_cmc_iff_witness:
  "findall [Child ''prop'', Child ''cmc''] (createXmlEntry (ex_typed ''Token'') ''abc'') = []
   \<and> findall [Child ''prop'', Child ''cmc''] (createXmlEntry (ex_typed ''Artifact Creature'') ''abc'')
       = [Element ''cmc'' [] (Some ''0'') []]"
  using createXmlEntry_cmc_iff [of "ex_typed ''Token''" "''abc''"]
    createXmlEntry_cmc_iff [of "ex_typed ''Artifact Creature''" "''abc''"]
  by (simp add: ex_typed_def)

subsection \<open>C7: what xmlMatch changes\<close>

text \<open>
  Claim C7.  When \<^verbatim>\<open>xmlMatch\<close> returns, the catalog is as before except that each matching
  entry has one new \<^verbatim>\<open>set\<close> element among its children: at index 3 when the entry has a
  \<^verbatim>\<open>text\<close> child and at index 2 otherwise.  A matching entry has at least that many
  children, so the new element is at that index exactly; the children before it and
  after it, the entry's tag, attributes and text, the entries that do not match and
  everything outside the \<^verbatim>\<open>cards\<close> containers are as before.
\<close>

theorem xmlMatch_only_inserts_set_line:
  "xmlMatch r ti sc rc = Inr (r', mf, rc') \<Longrightarrow>
     r' = Element (el_tag r) (el_attrib r) (el_text r)
            (map (\<lambda>k. if el_tag k = ''cards''
                      then Element (el_tag k) (el_attrib k) (el_text k)
                             (map (\<lambda>c. if card_matches c ti = Inr True
                                        then insert_set_line ti sc c else c) (el_children k))
                      else k) (el_children r))
   \<and> (\<forall>c. card_matches c ti = Inr True \<longrightarrow>
          (let i = (if find_el [Child ''text''] c \<noteq> None then 3 else 2);
               new = Element ''set'' [(''picURL'', token_image ti)] (Some (upper sc)) []
           in i \<le> length (el_children c)
              \<and> insert_set_line ti sc c =
                  Element (el_tag c) (el_attrib c) (el_text c)
                    (take i (el_children c) @ new # drop i (el_children c))
              \<and> el_children (insert_set_line ti sc c) ! i = new
              \<and> length (el_children (insert_set_line ti sc c)) = Suc (length (el_children c))))"
proof -
  assume a: "xmlMatch r ti sc rc = Inr (r', mf, rc')"
  have u: "updated_container ti sc = (\<lambda>k. if el_tag k = ''cards''
                      then Element (el_tag k) (el_attrib k) (el_text k)
                             (map (\<lambda>c. if card_matches c ti = Inr True
                                        then insert_set_line ti sc c else c) (el_children k))
                      else k)"
  proof -
    have "updated_entry ti sc = (\<lambda>c. if card_matches c ti = Inr True
                                        then insert_set_line ti sc c else c)"
      by (rule ext) (simp add: updated_entry_def)
    then show ?thesis by (intro ext) (simp add: updated_container_def)
  qed
  have 1: "r' = Element (el_tag r) (el_attrib r) (el_text r)
            (map (\<lambda>k. if el_tag k = ''cards''
                      then Element (el_tag k) (el_attrib k) (el_text k)
                             (map (\<lambda>c. if card_matches c ti = Inr True
                                        then insert_set_line ti sc c else c) (el_children k))
                      else k) (el_children r))"
    using xmlMatch_Inr(1) [OF a] by (simp only: u)
  have 2: "i \<le> length (el_children c) \<and>
           insert_set_line ti sc c =
                  Element (el_tag c) (el_attrib c) (el_text c)
                    (take i (el_children c) @ new # drop i (el_children c))
              \<and> el_children (insert_set_line ti sc c) ! i = new
              \<and> length (el_children (insert_set_line ti sc c)) = Suc (length (el_children c))"
    if m: "card_matches c ti = Inr True"
      and i: "i = (if find_el [Child ''text''] c \<noteq> None then 3 else 2)"
      and new: "new = Element ''set'' [(''picURL'', token_image ti)] (Some (upper sc)) []"
    for c i new
  proof -
    have le: "i \<le> length (el_children c)"
      using set_line_index_le [OF m] by (simp add: set_line_index_def i)
    have eq: "insert_set_line ti sc c =
                  Element (el_tag c) (el_attrib c) (el_text c)
                    (take i (el_children c) @ new # drop i (el_children c))"
      by (simp add: insert_set_line_def el_insert_def set_line_index_def new_set_line_def i new)
    have "(take i (el_children c) @ new # drop i (el_children c)) ! i = new"
      using le by (simp add: nth_append)
    with le eq show ?thesis by simp
  qed
  have 3: "\<forall>c. card_matches c ti = Inr True \<longrightarrow>
          (let i = (if find_el [Child ''text''] c \<noteq> None then 3 else 2);
               new = Element ''set'' [(''picURL'', token_image ti)] (Some (upper sc)) []
           in i \<le> length (el_children c)
              \<and> insert_set_line ti sc c =
                  Element (el_tag c) (el_attrib c) (el_text c)
                    (take i (el_children c) @ new # drop i (el_children c))
              \<and> el_children (insert_set_line ti sc c) ! i = new
              \<and> length (el_children (insert_set_line ti sc c)) = Suc (length (el_children c)))"
    unfolding Let_def by (intro allI impI) (rule 2 [OF _ refl refl])
  from 1 3 show ?thesis by (rule conjI)
qed

theorem xmlMatch_only_inserts_set_line_witness:
  "xmlMatch (ex_catalog [ex_card ''Goblin A'', ex_card ''Elf'', ex_card ''Goblin''])
     (ex_info ''Goblin'') ''abc'' 0
   = Inr (ex_catalog [ex_card_updated ''Goblin A'', ex_card ''Elf'', ex_card_updated ''Goblin''],
          True, 2)
   \<and> card_matches (ex_card ''Goblin A'') (ex_info ''Goblin'') = Inr True
   \<and> find_el [Child ''text''] (ex_card ''Goblin A'') = None
   \<and> el_children (insert_set_line (ex_info ''Goblin'') ''abc'' (ex_card ''Goblin A'')) ! 2
       = Element ''set'' [(''picURL'', ''https://x/img.png'')] (Some ''ABC'') []
   \<and> card_matches (ex_card_text ''Goblin'') (ex_info_text ''Goblin'') = Inr True
   \<and> find_el [Child ''text''] (ex_card_text ''Goblin'') \<noteq> None
   \<and> el_children (insert_set_line (ex_info_text ''Goblin'') ''abc'' (ex_card_text ''Goblin'')) ! 3
       = Element ''set'' [(''picURL'', ''https://x/img.png'')] (Some ''ABC'') []"
proof -
  have e: "xmlMatch (ex_catalog [ex_card ''Goblin A'', ex_card ''Elf'', ex_card ''Goblin''])
     (ex_info ''Goblin'') ''abc'' 0
   = Inr (ex_catalog [ex_card_updated ''Goblin A'', ex_card ''Elf'', ex_card_updated ''Goblin''],
          True, 2)"
    using ex_xmlMatch [of 0] by simp
  have e': "xmlMatch (ex_catalog [ex_card_text ''Goblin'']) (ex_info_text ''Goblin'') ''abc'' 0
   = Inr (ex_catalog [insert_set_line (ex_info_text ''Goblin'') ''abc'' (ex_card_text ''Goblin'')],
          True, 1)"
    by (simp add: xmlMatch_def ex_catalog_def ex_match_text)
  have t: "find_el [Child ''text''] (ex_card ''Goblin A'') = None"
    by (simp add: find_el_def ex_card_def ex_prop_def)
  have t': "find_el [Child ''text''] (ex_card_text ''Goblin'') \<noteq> None"
    by (simp add: find_el_def ex_card_text_def)
  from xmlMatch_only_inserts_set_line [OF e, THEN conjunct2, rule_format, OF ex_match_A]
  have 1: "el_children (insert_set_line (ex_info ''Goblin'') ''abc'' (ex_card ''Goblin A'')) ! 2
       = Element ''set'' [(''picURL'', ''https://x/img.png'')] (Some ''ABC'') []"
    by (simp add: Let_def t upper_abc ex_info_def ex_card_def ex_prop_def)
  from xmlMatch_only_inserts_set_line [OF e', THEN conjunct2, rule_format, OF ex_match_text] t'
  have 2: "el_children (insert_set_line (ex_info_text ''Goblin'') ''abc'' (ex_card_text ''Goblin'')) ! 3
       = Element ''set'' [(''picURL'', ''https://x/img.png'')] (Some ''ABC'') []"
    by (simp add: Let_def upper_abc ex_info_text_def ex_card_text_def ex_prop_def)
  from e ex_match_A t 1 ex_match_text t' 2 show ?thesis by simp
qed

subsection \<open>C8: a missing image\<close>

text \<open>
  Claim C8 says that a record without the large image is skipped and the run goes on.
  \<^verbatim>\<open>updateTokenXML\<close> has no exception handler: the KeyError of \<^verbatim>\<open>fetchTokenInfo\<close> ends the
  run, although the record after the faulty one is processed fine on its own.
\<close>

theorem missing_image_halts_run_counterexample:
  "updateTokenXML ''abc'' (ex_catalog [])
     [ex_token None, ex_token (Some [(''large'', ''https://x/img.png'')])]
     = Inl (KeyError ''image_uris'')
   \<and> updateTokenXML ''abc'' (ex_catalog []) [ex_token (Some [(''large'', ''https://x/img.png'')])]
     = Inr ex_state_new"
  by (simp add: ex_run_bad ex_run_empty ex_state_new_def)

text \<open>
  Claim C8, amended.  For every entry without the large image (no \<^verbatim>\<open>image_uris\<close>, or no
  \<^verbatim>\<open>large\<close> in it), \<^verbatim>\<open>fetchTokenInfo\<close> raises KeyError; and a run over a token list in
  which a token, or a face of a double-faced token, has no large image ends with an
  exception: the whole run halts.
\<close>

theorem missing_image_aborts_run:
  "(lacks_large_image sf \<longrightarrow> (\<exists>k. fetchTokenInfo sf = Inl (KeyError k)))
   \<and> (list_ex token_lacks_image ts \<longrightarrow> (\<exists>e. updateTokenXML sc r ts = Inl e))"
  by (auto simp: updateTokenXML_def intro: fetchTokenInfo_lacks process_tokens_lacks)

theorem missing_image_aborts_run_witness:
  "lacks_large_image (ex_token None)
   \<and> (\<exists>k. fetchTokenInfo (ex_token None) = Inl (KeyError k))
   \<and> list_ex token_lacks_image
       [ex_token (Some [(''large'', ''https://x/img.png'')]), ex_token None]
   \<and> (\<exists>e. updateTokenXML ''abc'' (ex_catalog [])
             [ex_token (Some [(''large'', ''https://x/img.png'')]), ex_token None] = Inl e)"
  using missing_image_aborts_run [of "ex_token None"
      "[ex_token (Some [(''large'', ''https://x/img.png'')]), ex_token None]" "''abc''"
      "ex_catalog []"]
  by (simp add: lacks_large_image_def token_lacks_image_def ex_token_def)

subsection \<open>C9: a second run\<close>

text \<open>
  Claim C9 says that a second run against the amended catalog counts every record as a
  reprint and creates no entry.  New entries go to the tree of new tokens, not to the
  catalog: a record that found no match in the first run finds none in the second.
\<close>

theorem second_run_counterexample:
  "updateTokenXML ''abc'' (ex_catalog []) [ex_token (Some [(''large'', ''https://x/img.png'')])]
     = Inr ex_state_new
   \<and> updateTokenXML ''abc'' (xml_root ex_state_new)
       [ex_token (Some [(''large'', ''https://x/img.png'')])] = Inr ex_state_new
   \<and> new_token_count ex_state_new = 1
   \<and> reprint_count ex_state_new = 0
   \<and> length [ex_token (Some [(''large'', ''https://x/img.png'')])] = 1"
  by (simp add: ex_run_empty ex_state_new_def)

text \<open>
  Claim C9, amended.  A second run with the same token list and set code against the
  catalog the first run has amended returns, and its counters and its new entries are
  those of the first run: the inserted \<^verbatim>\<open>set\<close> elements change no match.
\<close>

theorem second_run_same_counts:
  assumes "updateTokenXML sc r ts = Inr st"
  shows "\<exists>st'. updateTokenXML sc (xml_root st) ts = Inr st'
           \<and> new_token_count st' = new_token_count st
           \<and> reprint_count st' = reprint_count st
           \<and> double_faced_count st' = double_faced_count st
           \<and> new_cards st' = new_cards st"
proof -
  let ?s0 = "\<lparr>xml_root = r, new_cards = [], new_token_count = 0,
              double_faced_count = 0, reprint_count = 0\<rparr>"
  let ?s1 = "\<lparr>xml_root = xml_root st, new_cards = [], new_token_count = 0,
              double_faced_count = 0, reprint_count = 0\<rparr>"
  from assms have run: "process_tokens sc ts ?s0 = Inr st"
    by (simp add: updateTokenXML_def)
  from process_tokens_root [OF run] have "cat_equiv r (xml_root st)"
    by (simp add: cat_equiv_sym)
  then have "state_equiv ?s0 ?s1" by (simp add: state_equiv_def)
  from process_tokens_equiv [OF this, of sc ts] run
  obtain st' where "process_tokens sc ts ?s1 = Inr st'" "state_equiv st st'"
    by (cases "process_tokens sc ts ?s1") auto
  then show ?thesis by (auto simp: updateTokenXML_def state_equiv_def)
qed

theorem second_run_same_counts_witness:
  "updateTokenXML ''abc'' (ex_catalog [ex_card ''Goblin A'', ex_card ''Elf'', ex_card ''Goblin''])
     [ex_token (Some [(''large'', ''https://x/img.png'')])] = Inr ex_state_reprint
   \<and> (\<exists>st'. updateTokenXML ''abc'' (xml_root ex_state_reprint)
               [ex_token (Some [(''large'', ''https://x/img.png'')])] = Inr st'
             \<and> new_token_count st' = 0 \<and> reprint_count st' = 2)"
  using second_run_same_counts [OF ex_run_reprint] ex_run_reprint
  by (auto simp: ex_state_reprint_def)

subsection \<open>C10: entries without a name or a type\<close>

text \<open>
  Claim C10.  \<^verbatim>\<open>xmlMatch\<close> returns for every record exactly when every catalog entry has a
  \<^verbatim>\<open>name\<close> child and a \<^verbatim>\<open>prop/type\<close> element.  With an entry that has no \<^verbatim>\<open>name\<close> every
  record raises AttributeError.  With an entry that has no \<^verbatim>\<open>prop/type\<close> some record does:
  the conjunction of line 145 reaches the type only when the name and text tests have
  passed, so such an entry raises for the records whose name is a prefix of its name and
  whose text is its text, and is no match for the others.  Some catalog with an entry
  that lacks its \<^verbatim>\<open>prop/type\<close> raises for every record.
\<close>

theorem xmlMatch_total_iff_well_formed:
  "((\<forall>ti sc rc. \<exists>res. xmlMatch r ti sc rc = Inr res) \<longleftrightarrow>
      (\<forall>c\<in>set (catalog_entries r).
         find_el [Child ''name''] c \<noteq> None \<and> find_el [Child ''prop'', Child ''type''] c \<noteq> None))
   \<and> ((\<exists>c\<in>set (catalog_entries r). find_el [Child ''name''] c = None) \<longrightarrow>
        (\<forall>ti sc rc. xmlMatch r ti sc rc = Inl AttributeError))
   \<and> ((\<exists>c\<in>set (catalog_entries r). find_el [Child ''prop'', Child ''type''] c = None) \<longrightarrow>
        (\<exists>ti. \<forall>sc rc. xmlMatch r ti sc rc = Inl AttributeError))
   \<and> (\<forall>c ti. find_el [Child ''prop'', Child ''type''] c = None \<longrightarrow>
        card_matches c ti =
          (case findtext [Child ''name''] c of
             None \<Rightarrow> Inl AttributeError
           | Some n \<Rightarrow> if prefix (token_name ti) n \<and> xml_text_of c = token_text ti
                       then Inl AttributeError else Inr False))
   \<and> (\<exists>r0. (\<exists>c\<in>set (catalog_entries r0). find_el [Child ''prop'', Child ''type''] c = None)
          \<and> (\<forall>ti sc rc. xmlMatch r0 ti sc rc = Inl AttributeError))"
proof -
  have e: "catalog_entries (ex_catalog [Element ''card'' [] None []]) = [Element ''card'' [] None []]"
    by (simp add: catalog_entries_def ex_catalog_def)
  have "\<forall>ti sc rc. xmlMatch (ex_catalog [Element ''card'' [] None []]) ti sc rc = Inl AttributeError"
    using xmlMatch_well_formed [of "ex_catalog [Element ''card'' [] None []]"]
    by (simp add: e find_el_def)
  moreover have "\<exists>c\<in>set (catalog_entries (ex_catalog [Element ''card'' [] None []])).
      find_el [Child ''prop'', Child ''type''] c = None"
    by (simp add: e find_el_def)
  ultimately have "\<exists>r0. (\<exists>c\<in>set (catalog_entries r0). find_el [Child ''prop'', Child ''type''] c = None)
          \<and> (\<forall>ti sc rc. xmlMatch r0 ti sc rc = Inl AttributeError)"
    by blast
  with xmlMatch_well_formed [of r] card_matches_no_type show ?thesis by blast
qed

theorem xmlMatch_total_iff_well_formed_witness:
  "list_all (\<lambda>c. find_el [Child ''name''] c \<noteq> None
                  \<and> find_el [Child ''prop'', Child ''type''] c \<noteq> None)
     (catalog_entries (ex_catalog [ex_card ''Goblin A'', ex_card ''Elf'']))
   \<and> (\<forall>ti sc rc. \<exists>res.
        xmlMatch (ex_catalog [ex_card ''Goblin A'', ex_card ''Elf'']) ti sc rc = Inr res)
   \<and> (\<exists>c\<in>set (catalog_entries (ex_catalog [ex_card ''Elf'', Element ''card'' [] None []])).
        find_el [Child ''name''] c = None)
   \<and> (\<forall>ti sc rc.
        xmlMatch (ex_catalog [ex_card ''Elf'', Element ''card'' [] None []]) ti sc rc
          = Inl AttributeError)"
proof -
  have 1: "\<forall>c\<in>set (catalog_entries (ex_catalog [ex_card ''Goblin A'', ex_card ''Elf''])).
      find_el [Child ''name''] c \<noteq> None \<and> find_el [Child ''prop'', Child ''type''] c \<noteq> None"
    by (simp add: catalog_entries_def ex_catalog_def ex_card_def ex_prop_def find_el_def)
  have 2: "\<exists>c\<in>set (catalog_entries (ex_catalog [ex_card ''Elf'', Element ''card'' [] None []])).
        find_el [Child ''name''] c = None"
    by (simp add: catalog_entries_def ex_catalog_def ex_card_def ex_prop_def find_el_def)
  have 3: "\<forall>ti sc rc. \<exists>res.
        xmlMatch (ex_catalog [ex_card ''Goblin A'', ex_card ''Elf'']) ti sc rc = Inr res"
    using xmlMatch_total_iff_well_formed
      [of "ex_catalog [ex_card ''Goblin A'', ex_card ''Elf'']", THEN conjunct1, THEN iffD2, OF 1] .
  have 4: "\<forall>ti sc rc.
        xmlMatch (ex_catalog [ex_card ''Elf'', Element ''card'' [] None []]) ti sc rc
          = Inl AttributeError"
    using xmlMatch_total_iff_well_formed
      [of "ex_catalog [ex_card ''Elf'', Element ''card'' [] None []]",
       THEN conjunct2, THEN conjunct1, THEN mp, OF 2] .
  from 1 have 5: "list_all (\<lambda>c. find_el [Child ''name''] c \<noteq> None
                  \<and> find_el [Child ''prop'', Child ''type''] c \<noteq> None)
     (catalog_entries (ex_catalog [ex_card ''Goblin A'', ex_card ''Elf'']))"
    by (simp only: list_all_iff)
  from 5 3 2 4 show ?thesis by (intro conjI)
qed

end
